theory Spec2Isabelle
  imports Main "HOL-Library.AList" "HOL-Library.Finite_Map"
begin

section \<open>Data model\<close>

text \<open>
  The embedding follows \<^verbatim>\<open>xray/commands/audit/sca/java/javautils.go\<close>. Go strings are
  byte strings and are modelled as \<^typ>\<open>string\<close>.
\<close>

definition GavPackageTypeIdentifier :: string where
  "GavPackageTypeIdentifier = ''gav://''"

text \<open>
  A \<^verbatim>\<open>GraphNode\<close> of the xray client library. The populators read and write three of
  its fields: \<^verbatim>\<open>Id\<close>, \<^verbatim>\<open>Nodes\<close> and \<^verbatim>\<open>Parent\<close>. The \<^verbatim>\<open>Parent\<close> pointer is only ever
  followed upward, reading the \<^verbatim>\<open>Id\<close> and the \<^verbatim>\<open>Parent\<close> of each ancestor, and neither
  field changes once a node exists. It is therefore modelled by the list of the ids met
  on the chain of \<^verbatim>\<open>Parent\<close> pointers, nearest ancestor first; the empty list is the nil
  pointer.
\<close>

datatype GraphNode =
  GraphNode (NodeId: string) (Nodes: "GraphNode list") (Parent: "string list")

text \<open>\<^verbatim>\<open>parent.Nodes = append(parent.Nodes, node)\<close>\<close>

definition appendNode :: "GraphNode \<Rightarrow> GraphNode \<Rightarrow> GraphNode" where
  "appendNode parent node = GraphNode (NodeId parent) (Nodes parent @ [node]) (Parent parent)"

text \<open>The fields of \<^verbatim>\<open>buildinfo.Dependency\<close> and \<^verbatim>\<open>buildinfo.Module\<close> that the code reads.\<close>

record Dependency =
  DependencyId :: string
  RequestedBy :: "string list list"

record Module =
  ModuleId :: string
  Dependencies :: "Dependency list"

text \<open>
  The structure of a dependency tree of a module, as written by the gradle-dep-tree and
  maven-dep-tree plugins.
\<close>

record depTreeNode =
  Children :: "string list"

record moduleDepTree =
  Root :: string
  TreeNodes :: "(string, depTreeNode) fmap"

text \<open>
  Errors are values. \<^verbatim>\<open>ExternalError\<close> is an error that a collaborator outside this file
  returned, \<^verbatim>\<open>BuildNotFound\<close> the one \<^verbatim>\<open>createGavDependencyTree\<close> makes, \<^verbatim>\<open>ReadError\<close>
  and \<^verbatim>\<open>DecodeError\<close> the failures of \<^verbatim>\<open>os.ReadFile\<close> and \<^verbatim>\<open>json.Unmarshal\<close>. The last
  two are run-time panics: an index past the end of a slice, and a field read through a
  nil pointer.
\<close>

datatype error =
  ExternalError string
  | BuildNotFound string
  | ReadError string
  | DecodeError
  | IndexOutOfRange
  | NilPointerDereference

text \<open>The unique-dependency set: \<^verbatim>\<open>datastructures.Set[string]\<close>, with \<^verbatim>\<open>Add\<close> as \<^const>\<open>insert\<close>.\<close>

type_synonym uniqueDeps = "string set"

section \<open>Go maps that are ranged over\<close>

text \<open>
  A Go map whose entries are enumerated is an association list with distinct keys,
  written with \<^const>\<open>AList.update\<close> and read with \<^const>\<open>map_of\<close>. Go leaves the order
  of a \<^verbatim>\<open>range\<close> over a map unspecified. The order is a parameter of the model: a ranking
  \<open>ord\<close> of the keys, by which the entries are sorted before they are visited. Every
  permutation of the entries is the order of some ranking, and every theorem below holds
  for all rankings.
\<close>

definition rangeMap :: "(string \<Rightarrow> nat) \<Rightarrow> (string \<times> 'v) list \<Rightarrow> (string \<times> 'v) list" where
  "rangeMap ord m = sort_key (\<lambda>kv. ord (fst kv)) m"

type_synonym dependencyMap = "(string \<times> Dependency) list"

text \<open>
  \<^verbatim>\<open>dependencyMultimap\<close>: the map from a parent to the map of its children. The entries
  of the source are pointers into \<^verbatim>\<open>module.Dependencies\<close>, which is never written to, so
  the model stores the records themselves.
\<close>

type_synonym dependencyMultimap = "(string \<times> dependencyMap) list"

definition newDependencyMultimap :: dependencyMultimap where
  "newDependencyMultimap = []"

text \<open>Reading a missing key of a Go map gives the nil map, which ranges over nothing.\<close>

definition getChildren :: "dependencyMultimap \<Rightarrow> string \<Rightarrow> dependencyMap" where
  "getChildren dm parent = (case map_of dm parent of None \<Rightarrow> [] | Some children \<Rightarrow> children)"

definition putChild :: "dependencyMultimap \<Rightarrow> string \<Rightarrow> Dependency \<Rightarrow> dependencyMultimap" where
  "putChild dm parent child =
     AList.update parent (AList.update (DependencyId child) child (getChildren dm parent)) dm"

section \<open>Tree populator, requested-by model\<close>

fun hasLoop :: "string list \<Rightarrow> string \<Rightarrow> bool" where
  "hasLoop [] idToAdd = False"
| "hasLoop (i # idsAdded) idToAdd = (if i = idToAdd then True else hasLoop idsAdded idToAdd)"

text \<open>
  \<^verbatim>\<open>populateTransitiveDependencies\<close> writes to \<^verbatim>\<open>parent.Nodes\<close> and to the set; the model
  returns both. The source appends the pointer to the new node to \<^verbatim>\<open>parent.Nodes\<close> and
  then fills the node through that pointer; the model fills the node and appends it.
  \<^verbatim>\<open>append(idsAdded, dependencyId)\<close> may write into a backing array that sibling calls
  share, but only at the index of the current depth, which no running call reads, so
  the list is passed by value.
\<close>

function populateTransitiveDependencies ::
  "(string \<Rightarrow> nat) \<Rightarrow> GraphNode \<Rightarrow> string \<Rightarrow> dependencyMultimap \<Rightarrow> string list \<Rightarrow> uniqueDeps
     \<Rightarrow> GraphNode \<times> uniqueDeps" where
  "populateTransitiveDependencies ord parent dependencyId parentToChildren idsAdded uniqueDepsSet =
     (if hasLoop idsAdded dependencyId then (parent, uniqueDepsSet)
      else
        let idsAdded' = idsAdded @ [dependencyId];
            node = GraphNode (GavPackageTypeIdentifier @ dependencyId) [] [];
            uniqueDepsSet' = insert (NodeId node) uniqueDepsSet;
            (node', uniqueDepsSet'') =
              fold (\<lambda>child (n, u).
                      populateTransitiveDependencies ord n (DependencyId (snd child))
                        parentToChildren idsAdded' u)
                   (rangeMap ord (getChildren parentToChildren (NodeId node)))
                   (node, uniqueDepsSet')
        in (appendNode parent node', uniqueDepsSet''))"
  by pat_completeness auto

text \<open>
  The ids of all the records stored in a multimap: the finite universe in which the
  recursion moves.
\<close>

definition childIds :: "dependencyMultimap \<Rightarrow> string set" where
  "childIds dm = (\<Union>children \<in> snd ` set dm. (\<lambda>kv. DependencyId (snd kv)) ` set children)"

lemma finite_childIds: "finite (childIds dm)"
  by (simp add: childIds_def)

lemma hasLoop_iff: "hasLoop idsAdded idToAdd \<longleftrightarrow> idToAdd \<in> set idsAdded"
  by (induction idsAdded) auto

lemma getChildren_childIds:
  assumes "kv \<in> set (getChildren dm parent)"
  shows "DependencyId (snd kv) \<in> childIds dm"
proof -
  from assms obtain children where c: "map_of dm parent = Some children" "kv \<in> set children"
    by (cases "map_of dm parent") (auto simp: getChildren_def)
  then have "(parent, children) \<in> set dm"
    by (simp add: map_of_SomeD)
  with c show ?thesis
    by (force simp: childIds_def)
qed

text \<open>
  The number of ids not yet on the path, counting the id about to be added; a call that
  the loop check stops at once weighs nothing.
\<close>

definition pathWeight :: "string set \<Rightarrow> string list \<Rightarrow> string \<Rightarrow> nat" where
  "pathWeight universe path i =
     (if i \<in> set path then 0 else Suc (card (universe - set path - {i})))"

lemma pathWeight_decreases:
  assumes "finite universe" "i \<notin> set path" "c \<in> universe"
    and "set path' = insert i (set path)"
  shows "pathWeight universe path' c < pathWeight universe path i"
proof (cases "c \<in> set path'")
  case True
  with assms show ?thesis by (simp add: pathWeight_def)
next
  case False
  have "universe - set path' - {c} \<subset> universe - set path - {i}"
    using False assms by auto
  then have "card (universe - set path' - {c}) < card (universe - set path - {i})"
    using assms(1) by (intro psubset_card_mono) auto
  with False assms show ?thesis by (simp add: pathWeight_def)
qed

lemma populateTransitiveDependencies_terminates: "All populateTransitiveDependencies_dom"
proof (relation "measure (\<lambda>(ord, parent, dependencyId, parentToChildren, idsAdded, uniqueDepsSet).
                            pathWeight (childIds parentToChildren) idsAdded dependencyId)")
  show "wf (measure (\<lambda>(ord, parent, dependencyId, parentToChildren, idsAdded, uniqueDepsSet).
                            pathWeight (childIds parentToChildren) idsAdded dependencyId))"
    by simp
next
  fix ord :: "string \<Rightarrow> nat" and parent n :: GraphNode and dependencyId :: string
    and parentToChildren :: dependencyMultimap and idsAdded idsAdded' :: "string list"
    and uniqueDepsSet uniqueDepsSet' u :: uniqueDeps and node :: GraphNode
    and child :: "string \<times> Dependency"
  assume noLoop: "\<not> hasLoop idsAdded dependencyId"
    and ids: "idsAdded' = idsAdded @ [dependencyId]"
    and child: "child \<in> set (rangeMap ord (getChildren parentToChildren (NodeId node)))"
  from child have "DependencyId (snd child) \<in> childIds parentToChildren"
    by (auto simp: rangeMap_def intro: getChildren_childIds)
  moreover have "set idsAdded' = insert dependencyId (set idsAdded)"
    using ids by simp
  ultimately
  have "pathWeight (childIds parentToChildren) idsAdded' (DependencyId (snd child))
          < pathWeight (childIds parentToChildren) idsAdded dependencyId"
    using noLoop by (intro pathWeight_decreases) (simp_all add: finite_childIds hasLoop_iff)
  then show "((ord, n, DependencyId (snd child), parentToChildren, idsAdded', u),
              (ord, parent, dependencyId, parentToChildren, idsAdded, uniqueDepsSet))
             \<in> measure (\<lambda>(ord, parent, dependencyId, parentToChildren, idsAdded, uniqueDepsSet).
                            pathWeight (childIds parentToChildren) idsAdded dependencyId)"
    by simp
qed

termination populateTransitiveDependencies
  by (rule populateTransitiveDependencies_terminates)

declare populateTransitiveDependencies.simps [simp del]

section \<open>Tree populator, plugin-tree model\<close>

text \<open>
  Modelled from the spec: \<^verbatim>\<open>NodeHasLoop\<close> is a method of the xray client library's
  \<^verbatim>\<open>GraphNode\<close> and is not under \<^verbatim>\<open>src/\<close>. The spec has it walk the \<^verbatim>\<open>Parent\<close> chain
  upward from the current node and report whether the current node's own id recurs
  there, that is, whether the node repeats one of its ancestors.
\<close>

fun idOnChain :: "string \<Rightarrow> string list \<Rightarrow> bool" where
  "idOnChain currId [] = False"
| "idOnChain currId (parentId # ancestors) =
     (if currId = parentId then True else idOnChain currId ancestors)"

definition NodeHasLoop :: "GraphNode \<Rightarrow> bool" where
  "NodeHasLoop currNode = idOnChain (NodeId currNode) (Parent currNode)"

text \<open>
  \<^verbatim>\<open>moduleTree.Nodes[currNodeId].Children\<close>: a missing key reads as the zero
  \<^verbatim>\<open>depTreeNode\<close>, whose \<^verbatim>\<open>Children\<close> is the nil slice.
\<close>

definition nodeChildren :: "moduleDepTree \<Rightarrow> string \<Rightarrow> string list" where
  "nodeChildren moduleTree currNodeId =
     (case fmlookup (TreeNodes moduleTree) currNodeId of None \<Rightarrow> [] | Some n \<Rightarrow> Children n)"

text \<open>
  \<^verbatim>\<open>populateDependencyTree\<close> writes to \<^verbatim>\<open>currNode.Nodes\<close> and to the set; the model
  returns both. \<^verbatim>\<open>Parent: currNode\<close> is the chain that starts at the current node.
\<close>

function populateDependencyTree ::
  "GraphNode \<Rightarrow> string \<Rightarrow> moduleDepTree \<Rightarrow> uniqueDeps \<Rightarrow> GraphNode \<times> uniqueDeps" where
  "populateDependencyTree currNode currNodeId moduleTree uniqueDepsSet =
     (if NodeHasLoop currNode then (currNode, uniqueDepsSet)
      else
        fold (\<lambda>childId (curr, u).
                let childGav = GavPackageTypeIdentifier @ childId;
                    childNode = GraphNode childGav [] (NodeId currNode # Parent currNode);
                    u' = insert childGav u;
                    (childNode', u'') = populateDependencyTree childNode childId moduleTree u'
                in (appendNode curr childNode', u''))
             (nodeChildren moduleTree currNodeId)
             (currNode, uniqueDepsSet))"
  by pat_completeness auto

text \<open>The prefixed ids of all the children that a module tree lists.\<close>

definition treeChildIds :: "moduleDepTree \<Rightarrow> string set" where
  "treeChildIds moduleTree =
     (\<lambda>childId. GavPackageTypeIdentifier @ childId) `
       (\<Union>n \<in> fmran' (TreeNodes moduleTree). set (Children n))"

lemma finite_treeChildIds: "finite (treeChildIds moduleTree)"
  by (simp add: treeChildIds_def fmran'_alt_def)

lemma idOnChain_iff: "idOnChain currId chain \<longleftrightarrow> currId \<in> set chain"
  by (induction chain) auto

lemma nodeChildren_treeChildIds:
  assumes "childId \<in> set (nodeChildren moduleTree currNodeId)"
  shows "GavPackageTypeIdentifier @ childId \<in> treeChildIds moduleTree"
proof -
  from assms obtain n where n: "fmlookup (TreeNodes moduleTree) currNodeId = Some n"
      "childId \<in> set (Children n)"
    by (cases "fmlookup (TreeNodes moduleTree) currNodeId") (auto simp: nodeChildren_def)
  then have "n \<in> fmran' (TreeNodes moduleTree)"
    by (auto intro: fmran'I)
  with n show ?thesis
    by (auto simp: treeChildIds_def)
qed

lemma populateDependencyTree_terminates: "All populateDependencyTree_dom"
proof (relation "measure (\<lambda>(currNode, currNodeId, moduleTree, uniqueDepsSet).
                            pathWeight (treeChildIds moduleTree) (Parent currNode) (NodeId currNode))")
  show "wf (measure (\<lambda>(currNode, currNodeId, moduleTree, uniqueDepsSet).
                            pathWeight (treeChildIds moduleTree) (Parent currNode) (NodeId currNode)))"
    by simp
next
  fix currNode childNode :: GraphNode and currNodeId childId childGav :: string
    and moduleTree :: moduleDepTree and uniqueDepsSet u' :: uniqueDeps
  assume noLoop: "\<not> NodeHasLoop currNode"
    and child: "childId \<in> set (nodeChildren moduleTree currNodeId)"
    and gav: "childGav = GavPackageTypeIdentifier @ childId"
    and node: "childNode = GraphNode childGav [] (NodeId currNode # Parent currNode)"
  have "pathWeight (treeChildIds moduleTree) (Parent childNode) (NodeId childNode)
          < pathWeight (treeChildIds moduleTree) (Parent currNode) (NodeId currNode)"
    using noLoop child gav node
    by (intro pathWeight_decreases)
       (simp_all add: finite_treeChildIds NodeHasLoop_def idOnChain_iff nodeChildren_treeChildIds)
  then show "((childNode, childId, moduleTree, u'), (currNode, currNodeId, moduleTree, uniqueDepsSet))
             \<in> measure (\<lambda>(currNode, currNodeId, moduleTree, uniqueDepsSet).
                            pathWeight (treeChildIds moduleTree) (Parent currNode) (NodeId currNode))"
    by simp
qed

termination populateDependencyTree
  by (rule populateDependencyTree_terminates)

declare populateDependencyTree.simps [simp del]

section \<open>Requested-by model: one tree per module\<close>

text \<open>
  \<^verbatim>\<open>directParent[0]\<close> panics on an empty chain; only the first chain is checked for
  emptiness before the loop.
\<close>

fun isDirectDependency_range :: "string \<Rightarrow> string list list \<Rightarrow> error + bool" where
  "isDirectDependency_range moduleId [] = Inr False"
| "isDirectDependency_range moduleId (directParent # rest) =
     (case directParent of
        [] \<Rightarrow> Inl IndexOutOfRange
      | first # _ \<Rightarrow>
          if first = moduleId then Inr True else isDirectDependency_range moduleId rest)"

definition isDirectDependency :: "string \<Rightarrow> string list list \<Rightarrow> error + bool" where
  "isDirectDependency moduleId requestedBy =
     (case requestedBy of
        [] \<Rightarrow> Inr True
      | firstChain # _ \<Rightarrow>
          if length firstChain = 0 then Inr True
          else isDirectDependency_range moduleId requestedBy)"

text \<open>The loop \<^verbatim>\<open>for _, parent := range requestedBy\<close> of \<^verbatim>\<open>addModuleTree\<close>.\<close>

fun addModuleTree_parents ::
  "dependencyMultimap \<Rightarrow> string list list \<Rightarrow> Dependency \<Rightarrow> error + dependencyMultimap" where
  "addModuleTree_parents parentToChildren [] dependency = Inr parentToChildren"
| "addModuleTree_parents parentToChildren (parent # rest) dependency =
     (case parent of
        [] \<Rightarrow> Inl IndexOutOfRange
      | first # _ \<Rightarrow>
          addModuleTree_parents
            (putChild parentToChildren (GavPackageTypeIdentifier @ first) dependency) rest dependency)"

text \<open>The loop \<^verbatim>\<open>for index, dependency := range module.Dependencies\<close>.\<close>

fun addModuleTree_dependencies ::
  "string \<Rightarrow> Dependency list \<Rightarrow> dependencyMap \<Rightarrow> dependencyMultimap
     \<Rightarrow> error + (dependencyMap \<times> dependencyMultimap)" where
  "addModuleTree_dependencies moduleId [] directDependencies parentToChildren =
     Inr (directDependencies, parentToChildren)"
| "addModuleTree_dependencies moduleId (dependency # rest) directDependencies parentToChildren =
     (case isDirectDependency moduleId (RequestedBy dependency) of
        Inl e \<Rightarrow> Inl e
      | Inr True \<Rightarrow>
          addModuleTree_dependencies moduleId rest
            (AList.update (DependencyId dependency) dependency directDependencies) parentToChildren
      | Inr False \<Rightarrow>
          (case addModuleTree_parents parentToChildren (RequestedBy dependency) dependency of
             Inl e \<Rightarrow> Inl e
           | Inr parentToChildren' \<Rightarrow>
               addModuleTree_dependencies moduleId rest directDependencies parentToChildren'))"

definition addModuleTree ::
  "(string \<Rightarrow> nat) \<Rightarrow> Module \<Rightarrow> uniqueDeps \<Rightarrow> error + (GraphNode \<times> uniqueDeps)" where
  "addModuleTree ord module uniqueDepsSet =
     (let moduleTree = GraphNode (GavPackageTypeIdentifier @ ModuleId module) [] [];
          uniqueDepsSet' = insert (NodeId moduleTree) uniqueDepsSet
      in case addModuleTree_dependencies (ModuleId module) (Dependencies module)
                [] newDependencyMultimap of
           Inl e \<Rightarrow> Inl e
         | Inr (directDependencies, parentToChildren) \<Rightarrow>
             Inr (fold (\<lambda>directDependency (tree, u).
                          populateTransitiveDependencies ord tree
                            (DependencyId (snd directDependency)) parentToChildren [] u)
                       (rangeMap ord directDependencies)
                       (moduleTree, uniqueDepsSet')))"

text \<open>
  The build configuration and the generated build infos come from the artifactory
  utilities; the model takes what they return. \<^verbatim>\<open>uniqueDepsSet.ToSlice()\<close> lists the set
  in no particular order, so the model returns the set.
\<close>

record BuildInfo =
  Modules :: "Module list"

record BuildConfiguration =
  GetBuildName :: "error + string"
  GetBuildNumber :: "error + string"
  GetProject :: string

fun createGavDependencyTree_modules ::
  "(string \<Rightarrow> nat) \<Rightarrow> Module list \<Rightarrow> GraphNode list \<Rightarrow> uniqueDeps
     \<Rightarrow> error + (GraphNode list \<times> uniqueDeps)" where
  "createGavDependencyTree_modules ord [] modules uniqueDepsSet = Inr (modules, uniqueDepsSet)"
| "createGavDependencyTree_modules ord (module # rest) modules uniqueDepsSet =
     (case addModuleTree ord module uniqueDepsSet of
        Inl e \<Rightarrow> Inl e
      | Inr (moduleTree, uniqueDepsSet') \<Rightarrow>
          createGavDependencyTree_modules ord rest (modules @ [moduleTree]) uniqueDepsSet')"

definition createGavDependencyTree ::
  "(string \<Rightarrow> nat) \<Rightarrow> (string \<Rightarrow> string \<Rightarrow> string \<Rightarrow> error + BuildInfo list)
     \<Rightarrow> BuildConfiguration \<Rightarrow> error + (GraphNode list \<times> uniqueDeps)" where
  "createGavDependencyTree ord GetGeneratedBuildsInfo buildConfig =
     (case GetBuildName buildConfig of
        Inl e \<Rightarrow> Inl e
      | Inr buildName \<Rightarrow>
     (case GetBuildNumber buildConfig of
        Inl e \<Rightarrow> Inl e
      | Inr buildNumber \<Rightarrow>
     (case GetGeneratedBuildsInfo buildName buildNumber (GetProject buildConfig) of
        Inl e \<Rightarrow> Inl e
      | Inr generatedBuildsInfos \<Rightarrow>
     (case generatedBuildsInfos of
        [] \<Rightarrow> Inl (BuildNotFound (''Couldn't find build '' @ buildName @ ''/'' @ buildNumber))
      | buildInfo # _ \<Rightarrow>
          createGavDependencyTree_modules ord (Modules buildInfo) [] {}))))"

section \<open>Output-file parser\<close>

text \<open>
  \<^verbatim>\<open>strings.TrimSpace\<close> removes the leading and the trailing white space, as
  \<^verbatim>\<open>unicode.IsSpace\<close> defines it. A Go string is a sequence of bytes read as UTF-8, so the
  white space code points are listed by their encodings: U+0009 to U+000D, U+0020,
  U+0085, U+00A0, U+1680, U+2000 to U+200A, U+2028, U+2029, U+202F, U+205F and U+3000.
\<close>

definition spaceRunes :: "string list" where
  "spaceRunes =
     [[CHR 0x09], [CHR 0x0A], [CHR 0x0B], [CHR 0x0C], [CHR 0x0D], [CHR 0x20],
      [CHR 0xC2, CHR 0x85], [CHR 0xC2, CHR 0xA0],
      [CHR 0xE1, CHR 0x9A, CHR 0x80],
      [CHR 0xE2, CHR 0x80, CHR 0x80], [CHR 0xE2, CHR 0x80, CHR 0x81],
      [CHR 0xE2, CHR 0x80, CHR 0x82], [CHR 0xE2, CHR 0x80, CHR 0x83],
      [CHR 0xE2, CHR 0x80, CHR 0x84], [CHR 0xE2, CHR 0x80, CHR 0x85],
      [CHR 0xE2, CHR 0x80, CHR 0x86], [CHR 0xE2, CHR 0x80, CHR 0x87],
      [CHR 0xE2, CHR 0x80, CHR 0x88], [CHR 0xE2, CHR 0x80, CHR 0x89],
      [CHR 0xE2, CHR 0x80, CHR 0x8A],
      [CHR 0xE2, CHR 0x80, CHR 0xA8], [CHR 0xE2, CHR 0x80, CHR 0xA9],
      [CHR 0xE2, CHR 0x80, CHR 0xAF],
      [CHR 0xE2, CHR 0x81, CHR 0x9F],
      [CHR 0xE3, CHR 0x80, CHR 0x80]]"

lemma spaceRunes_nonempty: "w \<in> set spaceRunes \<Longrightarrow> w \<noteq> []"
  by (auto simp: spaceRunes_def)

text \<open>The white space rune that a string starts with, and the one it ends with.\<close>

definition leadingSpace :: "string \<Rightarrow> string option" where
  "leadingSpace s = find (\<lambda>w. take (length w) s = w) spaceRunes"

definition trailingSpace :: "string \<Rightarrow> string option" where
  "trailingSpace s = find (\<lambda>w. drop (length s - length w) s = w) spaceRunes"

lemma leadingSpace_Some:
  assumes "leadingSpace s = Some w"
  shows "w \<in> set spaceRunes" and "take (length w) s = w"
  using assms by (auto simp: leadingSpace_def find_Some_iff)

lemma trailingSpace_Some:
  assumes "trailingSpace s = Some w"
  shows "w \<in> set spaceRunes" and "drop (length s - length w) s = w"
  using assms by (auto simp: trailingSpace_def find_Some_iff)

function TrimLeft :: "string \<Rightarrow> string" where
  "TrimLeft s =
     (case leadingSpace s of None \<Rightarrow> s | Some w \<Rightarrow> TrimLeft (drop (length w) s))"
  by pat_completeness auto
termination
proof (relation "measure length")
  show "wf (measure (length :: string \<Rightarrow> nat))"
    by simp
next
  fix s w :: string
  assume "leadingSpace s = Some w"
  then have "w \<noteq> []" and "take (length w) s = w"
    by (auto dest: leadingSpace_Some spaceRunes_nonempty)
  then have "s \<noteq> []"
    by auto
  with \<open>w \<noteq> []\<close> show "(drop (length w) s, s) \<in> measure length"
    by simp
qed

declare TrimLeft.simps [simp del]

function TrimRight :: "string \<Rightarrow> string" where
  "TrimRight s =
     (case trailingSpace s of None \<Rightarrow> s | Some w \<Rightarrow> TrimRight (take (length s - length w) s))"
  by pat_completeness auto
termination
proof (relation "measure length")
  show "wf (measure (length :: string \<Rightarrow> nat))"
    by simp
next
  fix s w :: string
  assume "trailingSpace s = Some w"
  then have "w \<noteq> []" and "drop (length s - length w) s = w"
    by (auto dest: trailingSpace_Some spaceRunes_nonempty)
  then have "s \<noteq> []"
    by auto
  with \<open>w \<noteq> []\<close> show "(take (length s - length w) s, s) \<in> measure length"
    by simp
qed

declare TrimRight.simps [simp del]

definition TrimSpace :: "string \<Rightarrow> string" where
  "TrimSpace s = TrimRight (TrimLeft s)"

text \<open>
  \<^verbatim>\<open>strings.Split(s, "\n")\<close>: the pieces between the line feeds, one more than there are
  line feeds.
\<close>

fun Split_from :: "string \<Rightarrow> string \<Rightarrow> string list" where
  "Split_from piece [] = [piece]"
| "Split_from piece (c # s) =
     (if c = CHR 0x0A then piece # Split_from [] s else Split_from (piece @ [c]) s)"

definition Split :: "string \<Rightarrow> string list" where
  "Split s = Split_from [] s"

text \<open>
  \<^verbatim>\<open>os.ReadFile\<close> against a file system, a partial map from paths to contents. Opening
  the empty path fails on every system, whatever the files are.
\<close>

type_synonym fileSystem = "string \<rightharpoonup> string"

definition ReadFile :: "fileSystem \<Rightarrow> string \<Rightarrow> error + string" where
  "ReadFile fs name =
     (if name = [] then Inl (ReadError name)
      else case fs name of None \<Rightarrow> Inl (ReadError name) | Some contents \<Rightarrow> Inr contents)"

text \<open>
  \<^verbatim>\<open>json.Unmarshal(depTreeJson, &results)\<close> is a parameter of the model. It is given a
  pointer to the pointer \<^verbatim>\<open>results\<close>, so it has three outcomes: an error, the JSON literal
  \<^verbatim>\<open>null\<close>, which sets \<^verbatim>\<open>results\<close> to nil, and a decoded module tree.
\<close>

datatype unmarshalled = Invalid | Null | Decoded moduleDepTree

text \<open>
  A \<^verbatim>\<open>*moduleDepTree\<close> is an optional record. \<^verbatim>\<open>errorutils.CheckError\<close> returns nil for nil
  and an error otherwise. On a decoding error the source returns the error together with
  the partly filled \<^verbatim>\<open>results\<close>; the only caller drops them.
\<close>

definition parseDepTreeFile ::
  "fileSystem \<Rightarrow> (string \<Rightarrow> unmarshalled) \<Rightarrow> string \<Rightarrow> error + moduleDepTree option" where
  "parseDepTreeFile fs Unmarshal path =
     (case ReadFile fs (TrimSpace path) of
        Inl e \<Rightarrow> Inl e
      | Inr depTreeJson \<Rightarrow>
          (case Unmarshal depTreeJson of
             Invalid \<Rightarrow> Inl DecodeError
           | Null \<Rightarrow> Inr None
           | Decoded results \<Rightarrow> Inr (Some results)))"

fun parseDepTreeFiles_range ::
  "fileSystem \<Rightarrow> (string \<Rightarrow> unmarshalled) \<Rightarrow> string list \<Rightarrow> moduleDepTree option list
     \<Rightarrow> error + moduleDepTree option list" where
  "parseDepTreeFiles_range fs Unmarshal [] modules = Inr modules"
| "parseDepTreeFiles_range fs Unmarshal (path # rest) modules =
     (case parseDepTreeFile fs Unmarshal path of
        Inl e \<Rightarrow> Inl e
      | Inr results \<Rightarrow> parseDepTreeFiles_range fs Unmarshal rest (modules @ [results]))"

text \<open>\<^verbatim>\<open>Inl e\<close> is the return of \<^verbatim>\<open>nil, err\<close>: no module list comes with an error.\<close>

definition parseDepTreeFiles ::
  "fileSystem \<Rightarrow> (string \<Rightarrow> unmarshalled) \<Rightarrow> string \<Rightarrow> error + moduleDepTree option list" where
  "parseDepTreeFiles fs Unmarshal jsonFilePaths =
     parseDepTreeFiles_range fs Unmarshal (Split (TrimSpace jsonFilePaths)) []"

section \<open>Plugin-tree model: one tree per output file\<close>

text \<open>\<^verbatim>\<open>moduleTree.Root\<close> through a nil \<^verbatim>\<open>moduleTree\<close> panics.\<close>

fun getGraphFromDepTree_range ::
  "moduleDepTree option list \<Rightarrow> GraphNode list \<Rightarrow> uniqueDeps
     \<Rightarrow> error + (GraphNode list \<times> uniqueDeps)" where
  "getGraphFromDepTree_range [] depsGraph uniqueDepsSet = Inr (depsGraph, uniqueDepsSet)"
| "getGraphFromDepTree_range (modulePtr # rest) depsGraph uniqueDepsSet =
     (case modulePtr of
        None \<Rightarrow> Inl NilPointerDereference
      | Some moduleTree \<Rightarrow>
          let directDependency = GraphNode (GavPackageTypeIdentifier @ Root moduleTree) [] [];
              (directDependency', uniqueDepsSet') =
                populateDependencyTree directDependency (Root moduleTree) moduleTree uniqueDepsSet
          in getGraphFromDepTree_range rest (depsGraph @ [directDependency']) uniqueDepsSet')"

definition getGraphFromDepTree ::
  "fileSystem \<Rightarrow> (string \<Rightarrow> unmarshalled) \<Rightarrow> string \<Rightarrow> error + (GraphNode list \<times> uniqueDeps)" where
  "getGraphFromDepTree fs Unmarshal depTreeOutput =
     (case parseDepTreeFiles fs Unmarshal depTreeOutput of
        Inl e \<Rightarrow> Inl e
      | Inr modules \<Rightarrow> getGraphFromDepTree_range modules [] {})"

section \<open>Notions the properties are stated with\<close>

text \<open>The ids of a tree, and of a list of trees.\<close>

fun nodeIds :: "GraphNode \<Rightarrow> string set" where
  "nodeIds (GraphNode i ns p) = insert i (\<Union>n \<in> set ns. nodeIds n)"

definition graphIds :: "GraphNode list \<Rightarrow> string set" where
  "graphIds ns = (\<Union>n \<in> set ns. nodeIds n)"

text \<open>
  What a populator leaves behind: the node it was given with new children appended, and
  the set it was given with the ids of these children's trees added.
\<close>

definition grown :: "GraphNode \<Rightarrow> GraphNode list \<Rightarrow> uniqueDeps \<Rightarrow> GraphNode \<times> uniqueDeps" where
  "grown parent new u =
     (GraphNode (NodeId parent) (Nodes parent @ new) (Parent parent), u \<union> graphIds new)"




text \<open>
  The parents under which a record is filed: the prefixed first elements of its chains.
\<close>

definition requesters :: "string list list \<Rightarrow> string list" where
  "requesters requestedBy =
     concat (map (\<lambda>chain. case chain of [] \<Rightarrow> [] | first # _ \<Rightarrow> [GavPackageTypeIdentifier @ first])
               requestedBy)"

text \<open>The raw coordinates that a module tree of the plugins names.\<close>

definition treeRawIds :: "moduleDepTree \<Rightarrow> string set" where
  "treeRawIds moduleTree =
     insert (Root moduleTree) (\<Union>n \<in> fmran' (TreeNodes moduleTree). set (Children n))"

text \<open>A plugin tree with a cycle: A lists B and B lists A.\<close>

definition cyclicTree :: moduleDepTree where
  "cyclicTree = \<lparr>Root = ''A'',
     TreeNodes = fmap_of_list [(''A'', \<lparr>Children = [''B'']\<rparr>), (''B'', \<lparr>Children = [''A'']\<rparr>)]\<rparr>"

text \<open>A multimap with a cycle: b is a child of a and a is a child of b.\<close>

definition cyclicMultimap :: dependencyMultimap where
  "cyclicMultimap =
     [(''gav://a'', [(''b'', \<lparr>DependencyId = ''b'', RequestedBy = [[''a'']]\<rparr>)]),
      (''gav://b'', [(''a'', \<lparr>DependencyId = ''a'', RequestedBy = [[''b'']]\<rparr>)])]"

text \<open>
  Small inputs: the module m with the direct dependency b and the dependency c that b
  requested; a plugin tree whose root r lists the child x; a file system with three
  output files; and a build configuration.
\<close>

definition exampleModule :: Module where
  "exampleModule =
     \<lparr>ModuleId = ''m'',
      Dependencies = [\<lparr>DependencyId = ''b'', RequestedBy = []\<rparr>,
                      \<lparr>DependencyId = ''c'', RequestedBy = [[''b'', ''m'']]\<rparr>]\<rparr>"

definition exampleTree :: moduleDepTree where
  "exampleTree = \<lparr>Root = ''r'', TreeNodes = fmap_of_list [(''r'', \<lparr>Children = [''x'']\<rparr>)]\<rparr>"

definition exampleFiles :: fileSystem where
  "exampleFiles = [''a.json'' \<mapsto> ''A'', ''b.json'' \<mapsto> ''B'', ''c.json'' \<mapsto> ''C'']"

definition exampleBuildConfig :: BuildConfiguration where
  "exampleBuildConfig =
     \<lparr>GetBuildName = Inr ''audit-mvn'', GetBuildNumber = Inr ''1'', GetProject = []\<rparr>"


text \<open>
  A decoder for the contents of the three files, which rejects the third; and the pieces
  of a split joined again with line feeds.
\<close>

definition exampleUnmarshal :: "string \<Rightarrow> unmarshalled" where
  "exampleUnmarshal depTreeJson =
     (if depTreeJson = ''A'' then Decoded exampleTree
      else if depTreeJson = ''B'' then Decoded cyclicTree
      else Invalid)"

definition joinLines :: "string list \<Rightarrow> string" where
  "joinLines pieces =
     (case pieces of [] \<Rightarrow> [] | piece # rest \<Rightarrow> piece @ concat (map (\<lambda>p. CHR 0x0A # p) rest))"

section \<open>Unfolding the populators\<close>

lemma populateTransitiveDependencies_loop:
  "hasLoop idsAdded d \<Longrightarrow>
     populateTransitiveDependencies ord parent d parentToChildren idsAdded u = (parent, u)"
  by (subst populateTransitiveDependencies.simps) simp

lemma populateTransitiveDependencies_step:
  assumes "\<not> hasLoop idsAdded d"
  shows "populateTransitiveDependencies ord parent d parentToChildren idsAdded u =
     (let r = fold (\<lambda>child acc.
                      populateTransitiveDependencies ord (fst acc) (DependencyId (snd child))
                        parentToChildren (idsAdded @ [d]) (snd acc))
                   (rangeMap ord (getChildren parentToChildren (GavPackageTypeIdentifier @ d)))
                   (GraphNode (GavPackageTypeIdentifier @ d) [] [],
                    insert (GavPackageTypeIdentifier @ d) u)
      in (appendNode parent (fst r), snd r))"
  using assms
  by (subst populateTransitiveDependencies.simps) (simp add: Let_def case_prod_unfold)

lemma populateDependencyTree_loop:
  "NodeHasLoop currNode \<Longrightarrow>
     populateDependencyTree currNode currNodeId moduleTree u = (currNode, u)"
  by (subst populateDependencyTree.simps) simp

lemma populateDependencyTree_step:
  assumes "\<not> NodeHasLoop currNode"
  shows "populateDependencyTree currNode currNodeId moduleTree u =
     fold (\<lambda>childId acc.
             let r = populateDependencyTree
                       (GraphNode (GavPackageTypeIdentifier @ childId) []
                          (NodeId currNode # Parent currNode))
                       childId moduleTree (insert (GavPackageTypeIdentifier @ childId) (snd acc))
             in (appendNode (fst acc) (fst r), snd r))
          (nodeChildren moduleTree currNodeId) (currNode, u)"
  using assms
  by (subst populateDependencyTree.simps) (simp add: Let_def case_prod_unfold)

section \<open>Trees that grow\<close>

lemma nodeIds_sel: "nodeIds n = insert (NodeId n) (graphIds (Nodes n))"
  by (cases n) (simp add: graphIds_def)

lemma graphIds_simps [simp]:
  "graphIds [] = {}"
  "graphIds (n # ns) = nodeIds n \<union> graphIds ns"
  "graphIds (ns @ ms) = graphIds ns \<union> graphIds ms"
  by (auto simp: graphIds_def)

lemma grown_Nil: "grown parent [] u = (parent, u)"
  by (simp add: grown_def)

lemma grown_grown:
  "grown (fst (grown parent new u)) new' (snd (grown parent new u)) = grown parent (new @ new') u"
  by (auto simp: grown_def)

lemma grown_append: "(appendNode parent node, u \<union> nodeIds node) = grown parent [node] u"
  by (simp add: grown_def appendNode_def)

text \<open>
  A loop that appends one subtree per element appends, in the end, a list of subtrees,
  in the order of the elements.
\<close>

lemma fold_grown:
  assumes "\<And>c acc. c \<in> set cs \<Longrightarrow>
             \<exists>new. f c acc = grown (fst acc) new (snd acc) \<and> map NodeId new = g c \<and> list_all Q new"
  shows "\<exists>new. fold f cs acc = grown (fst acc) new (snd acc) \<and>
               map NodeId new = concat (map g cs) \<and> list_all Q new"
  using assms
proof (induction cs arbitrary: acc)
  case Nil
  show ?case by (intro exI[of _ "[]"]) (simp add: grown_Nil)
next
  case (Cons c cs)
  obtain new1 where c: "f c acc = grown (fst acc) new1 (snd acc)" "map NodeId new1 = g c"
      "list_all Q new1"
    using Cons.prems[of c acc] by auto
  obtain new2 where n: "fold f cs (f c acc) = grown (fst (f c acc)) new2 (snd (f c acc))"
      "map NodeId new2 = concat (map g cs)" "list_all Q new2"
    using Cons.IH[of "f c acc"] Cons.prems by auto
  have "fold f (c # cs) acc = grown (fst acc) (new1 @ new2) (snd acc)"
    using n(1) c(1) by (simp add: grown_grown)
  with c n show ?case
    by (intro exI[of _ "new1 @ new2"]) simp
qed

text \<open>
  An induction principle for the nodes that the requested-by populator makes: a
  property that passes from the children to a node made for an id off the path holds of
  every node appended.
\<close>

lemma populateTransitiveDependencies_grown:
  assumes step: "\<And>ids d kids. d \<in> D \<Longrightarrow> d \<notin> set ids \<Longrightarrow> list_all (Q (ids @ [d])) kids
                   \<Longrightarrow> Q ids (GraphNode (GavPackageTypeIdentifier @ d) kids [])"
    and "d \<in> D" and "childIds parentToChildren \<subseteq> D"
  shows "\<exists>new. populateTransitiveDependencies ord parent d parentToChildren idsAdded u
                 = grown parent new u \<and>
               map NodeId new = (if d \<in> set idsAdded then [] else [GavPackageTypeIdentifier @ d]) \<and>
               list_all (Q idsAdded) new"
  using assms(2,3)
proof (induction ord parent d parentToChildren idsAdded u rule: populateTransitiveDependencies.induct)
  case (1 ord parent d parentToChildren idsAdded u)
  show ?case
  proof (cases "hasLoop idsAdded d")
    case True
    then show ?thesis
      by (intro exI[of _ "[]"]) (simp add: populateTransitiveDependencies_loop grown_Nil hasLoop_iff)
  next
    case False
    define gav where "gav = GavPackageTypeIdentifier @ d"
    define children where "children = rangeMap ord (getChildren parentToChildren gav)"
    define f where "f = (\<lambda>(child :: string \<times> Dependency) (acc :: GraphNode \<times> uniqueDeps).
        populateTransitiveDependencies ord (fst acc) (DependencyId (snd child)) parentToChildren
          (idsAdded @ [d]) (snd acc))"
    define r where "r = fold f children (GraphNode gav [] [], insert gav u)"
    have res: "populateTransitiveDependencies ord parent d parentToChildren idsAdded u
                 = (appendNode parent (fst r), snd r)"
      using False
      by (simp add: populateTransitiveDependencies_step r_def f_def children_def gav_def Let_def)
    have "\<exists>new. fold f children (GraphNode gav [] [], insert gav u)
                  = grown (fst (GraphNode gav [] [], insert gav u)) new
                          (snd (GraphNode gav [] [], insert gav u)) \<and>
                map NodeId new
                  = concat (map (\<lambda>child. if DependencyId (snd child) \<in> set (idsAdded @ [d]) then []
                                  else [GavPackageTypeIdentifier @ DependencyId (snd child)]) children) \<and>
                list_all (Q (idsAdded @ [d])) new"
    proof (rule fold_grown)
      fix child and acc :: "GraphNode \<times> uniqueDeps"
      assume child: "child \<in> set children"
      then have "DependencyId (snd child) \<in> D"
        using "1.prems"(2) by (auto simp: children_def rangeMap_def dest: getChildren_childIds)
      with child show "\<exists>new. f child acc = grown (fst acc) new (snd acc) \<and>
                map NodeId new = (if DependencyId (snd child) \<in> set (idsAdded @ [d]) then []
                                  else [GavPackageTypeIdentifier @ DependencyId (snd child)]) \<and>
                list_all (Q (idsAdded @ [d])) new"
        unfolding f_def
        using "1.IH" [OF False refl refl refl, of child "fst acc" "snd acc"] "1.prems"(2)
        by (simp add: children_def gav_def)
    qed
    then obtain kids where k: "r = grown (GraphNode gav [] []) kids (insert gav u)"
        "list_all (Q (idsAdded @ [d])) kids"
      by (auto simp: r_def)
    define node where "node = GraphNode gav kids []"
    have r: "r = (node, insert gav u \<union> graphIds kids)"
      using k(1) by (simp add: grown_def node_def)
    have ids: "nodeIds node = insert gav (graphIds kids)"
      by (simp add: node_def graphIds_def)
    have "Q idsAdded node"
      using False k(2) "1.prems"(1) unfolding node_def gav_def
      by (intro step) (simp_all add: hasLoop_iff)
    moreover have "(appendNode parent (fst r), snd r) = grown parent [node] u"
      unfolding r by (simp add: grown_append[symmetric] ids)
    ultimately show ?thesis
      using False unfolding res
      by (intro exI[of _ "[node]"]) (simp add: node_def gav_def hasLoop_iff)
  qed
qed

text \<open>The same for the plugin-tree populator.\<close>

lemma populateDependencyTree_grown:
  assumes step: "\<And>chain i c kids. c \<in> set (nodeChildren moduleTree i)
                   \<Longrightarrow> list_all (Q ((GavPackageTypeIdentifier @ c) # chain)) kids
                   \<Longrightarrow> (GavPackageTypeIdentifier @ c \<in> set chain \<longrightarrow> kids = [])
                   \<Longrightarrow> Q chain (GraphNode (GavPackageTypeIdentifier @ c) kids chain)"
  shows "\<exists>new. populateDependencyTree currNode currNodeId moduleTree u = grown currNode new u \<and>
               map NodeId new = (if NodeHasLoop currNode then []
                                 else map (\<lambda>c. GavPackageTypeIdentifier @ c)
                                        (nodeChildren moduleTree currNodeId)) \<and>
               list_all (Q (NodeId currNode # Parent currNode)) new"
  using step
proof (induction currNode currNodeId moduleTree u rule: populateDependencyTree.induct)
  case (1 currNode currNodeId moduleTree u)
  show ?case
  proof (cases "NodeHasLoop currNode")
    case True
    then show ?thesis
      by (intro exI[of _ "[]"]) (simp add: populateDependencyTree_loop grown_Nil)
  next
    case False
    define chain where "chain = NodeId currNode # Parent currNode"
    define f where "f = (\<lambda>childId (acc :: GraphNode \<times> uniqueDeps).
             let r = populateDependencyTree
                       (GraphNode (GavPackageTypeIdentifier @ childId) [] chain)
                       childId moduleTree (insert (GavPackageTypeIdentifier @ childId) (snd acc))
             in (appendNode (fst acc) (fst r), snd r))"
    have res: "populateDependencyTree currNode currNodeId moduleTree u =
                 fold f (nodeChildren moduleTree currNodeId) (currNode, u)"
      using False by (simp add: populateDependencyTree_step f_def chain_def)
    have "\<exists>new. fold f (nodeChildren moduleTree currNodeId) (currNode, u)
                   = grown (fst (currNode, u)) new (snd (currNode, u)) \<and>
                 map NodeId new = concat (map (\<lambda>c. [GavPackageTypeIdentifier @ c])
                                            (nodeChildren moduleTree currNodeId)) \<and>
                 list_all (Q chain) new"
    proof (rule fold_grown)
      fix c and acc :: "GraphNode \<times> uniqueDeps"
      assume c: "c \<in> set (nodeChildren moduleTree currNodeId)"
      define child where "child = GraphNode (GavPackageTypeIdentifier @ c) [] chain"
      define u' where "u' = insert (GavPackageTypeIdentifier @ c) (snd acc)"
      have "\<exists>kids. populateDependencyTree child c moduleTree u' = grown child kids u' \<and>
          map NodeId kids = (if NodeHasLoop child then []
                    else map (\<lambda>c. GavPackageTypeIdentifier @ c) (nodeChildren moduleTree c)) \<and>
          list_all (Q (NodeId child # Parent child)) kids"
        unfolding child_def u'_def chain_def
        by (rule "1.IH" [OF False c refl refl refl "1.prems"])
      then obtain kids where k: "populateDependencyTree child c moduleTree u' = grown child kids u'"
          "map NodeId kids = (if NodeHasLoop child then []
                    else map (\<lambda>c. GavPackageTypeIdentifier @ c) (nodeChildren moduleTree c))"
          "list_all (Q (NodeId child # Parent child)) kids"
        by auto
      define child' where "child' = GraphNode (GavPackageTypeIdentifier @ c) kids chain"
      have "GavPackageTypeIdentifier @ c \<in> set chain \<longrightarrow> kids = []"
        using k(2) by (auto simp: NodeHasLoop_def idOnChain_iff child_def)
      with k(3) c have "Q chain child'"
        unfolding child'_def by (intro "1.prems") (simp_all add: child_def)
      moreover have "f c acc = grown (fst acc) [child'] (snd acc)"
        using k(1) by (simp add: f_def child_def[symmetric] u'_def[symmetric])
           (auto simp: grown_def appendNode_def child_def child'_def u'_def nodeIds_sel)
      ultimately show "\<exists>new. f c acc = grown (fst acc) new (snd acc) \<and>
                          map NodeId new = [GavPackageTypeIdentifier @ c] \<and> list_all (Q chain) new"
        by (intro exI[of _ "[child']"]) (simp add: child'_def)
    qed
    with False res show ?thesis
      by (simp add: chain_def concat_map_singleton)
  qed
qed

lemma NodeId_in_nodeIds: "NodeId n \<in> nodeIds n"
  by (cases n) simp

lemma NodeId_in_graphIds: "n \<in> set ns \<Longrightarrow> NodeId n \<in> graphIds ns"
  unfolding graphIds_def using NodeId_in_nodeIds by blast

section \<open>The cycle guard of the plugin-tree populator\<close>

text \<open>
  Claim C5. In the plugin-tree populator the cycle guard is evaluated on the current
  node, before its children are expanded, by walking the \<^verbatim>\<open>Parent\<close> chain upward: the
  guard holds when the current node's own id recurs among its ancestors, and then the
  node is returned as it is, none of its children expanded. Otherwise one node is made
  for every child id listed, in order, whether it repeats an ancestor or not: each is
  given the chain through the current node as its \<^verbatim>\<open>Parent\<close>, its id is added to the
  unique-dependency set, and it is appended to the current node's children; a child that
  repeats an ancestor stays without children.
\<close>

theorem populateDependencyTree_guard:
  "NodeHasLoop currNode = (NodeId currNode \<in> set (Parent currNode)) \<and>
   (NodeHasLoop currNode \<longrightarrow>
      populateDependencyTree currNode currNodeId moduleTree u = (currNode, u)) \<and>
   (\<not> NodeHasLoop currNode \<longrightarrow>
      (\<exists>new. populateDependencyTree currNode currNodeId moduleTree u
               = (GraphNode (NodeId currNode) (Nodes currNode @ new) (Parent currNode),
                  u \<union> graphIds new) \<and>
             map NodeId new
               = map (\<lambda>childId. GavPackageTypeIdentifier @ childId)
                   (nodeChildren moduleTree currNodeId) \<and>
             (\<forall>childNode \<in> set new.
                Parent childNode = NodeId currNode # Parent currNode \<and>
                NodeId childNode \<in> u \<union> graphIds new \<and>
                (NodeHasLoop childNode \<longrightarrow> Nodes childNode = []))))"
proof (intro conjI impI)
  show "NodeHasLoop currNode = (NodeId currNode \<in> set (Parent currNode))"
    by (simp add: NodeHasLoop_def idOnChain_iff)
next
  assume "NodeHasLoop currNode"
  then show "populateDependencyTree currNode currNodeId moduleTree u = (currNode, u)"
    by (rule populateDependencyTree_loop)
next
  assume noLoop: "\<not> NodeHasLoop currNode"
  define Q where "Q = (\<lambda>chain n. Parent n = chain \<and> (NodeHasLoop n \<longrightarrow> Nodes n = []))"
  have "\<exists>new. populateDependencyTree currNode currNodeId moduleTree u = grown currNode new u \<and>
               map NodeId new = (if NodeHasLoop currNode then []
                                 else map (\<lambda>c. GavPackageTypeIdentifier @ c)
                                        (nodeChildren moduleTree currNodeId)) \<and>
               list_all (Q (NodeId currNode # Parent currNode)) new"
  proof (rule populateDependencyTree_grown)
    fix chain :: "string list" and c :: string and kids :: "GraphNode list"
    assume "GavPackageTypeIdentifier @ c \<in> set chain \<longrightarrow> kids = []"
    then show "Q chain (GraphNode (GavPackageTypeIdentifier @ c) kids chain)"
      by (simp add: Q_def NodeHasLoop_def idOnChain_iff)
  qed
  then obtain new where new: "populateDependencyTree currNode currNodeId moduleTree u = grown currNode new u"
      "map NodeId new = map (\<lambda>c. GavPackageTypeIdentifier @ c) (nodeChildren moduleTree currNodeId)"
      "list_all (Q (NodeId currNode # Parent currNode)) new"
    using noLoop by auto
  have "\<forall>childNode \<in> set new. NodeId childNode \<in> graphIds new"
    by (simp add: NodeId_in_graphIds)
  with new show "\<exists>new. populateDependencyTree currNode currNodeId moduleTree u
               = (GraphNode (NodeId currNode) (Nodes currNode @ new) (Parent currNode),
                  u \<union> graphIds new) \<and>
             map NodeId new
               = map (\<lambda>childId. GavPackageTypeIdentifier @ childId)
                   (nodeChildren moduleTree currNodeId) \<and>
             (\<forall>childNode \<in> set new.
                Parent childNode = NodeId currNode # Parent currNode \<and>
                NodeId childNode \<in> u \<union> graphIds new \<and>
                (NodeHasLoop childNode \<longrightarrow> Nodes childNode = []))"
    by (intro exI[of _ new]) (simp add: grown_def Q_def list_all_iff)
qed


text \<open>
  In the tree where A lists B and B lists A: the second A, below B, is returned unexpanded,
  and B, below the first A, gets the second A as its only child.
\<close>

theorem populateDependencyTree_guard_witness:
  "populateDependencyTree (GraphNode ''gav://A'' [] [''gav://B'', ''gav://A'']) ''A'' cyclicTree {}
     = (GraphNode ''gav://A'' [] [''gav://B'', ''gav://A''], {}) \<and>
   populateDependencyTree (GraphNode ''gav://B'' [] [''gav://A'']) ''B'' cyclicTree {}
     = (GraphNode ''gav://B'' [GraphNode ''gav://A'' [] [''gav://B'', ''gav://A'']] [''gav://A''],
        {''gav://A''})"
proof
  let ?A = "GraphNode ''gav://A'' [] [''gav://B'', ''gav://A'']"
  let ?B = "GraphNode ''gav://B'' [] [''gav://A'']"
  have loopA: "NodeHasLoop ?A"
    by (simp add: NodeHasLoop_def)
  with populateDependencyTree_guard [of ?A "''A''" cyclicTree "{}"]
  show "populateDependencyTree ?A ''A'' cyclicTree {} = (?A, {})"
    by blast
  have "\<not> NodeHasLoop ?B"
    by (simp add: NodeHasLoop_def)
  with populateDependencyTree_guard [of ?B "''B''" cyclicTree "{}"]
  obtain new where new: "populateDependencyTree ?B ''B'' cyclicTree {}
        = (GraphNode (NodeId ?B) (Nodes ?B @ new) (Parent ?B), {} \<union> graphIds new)"
      "map NodeId new = map (\<lambda>childId. GavPackageTypeIdentifier @ childId) (nodeChildren cyclicTree ''B'')"
      "\<forall>childNode \<in> set new. Parent childNode = NodeId ?B # Parent ?B \<and>
          NodeId childNode \<in> {} \<union> graphIds new \<and> (NodeHasLoop childNode \<longrightarrow> Nodes childNode = [])"
    by blast
  from new(2) obtain c where c: "new = [c]" "NodeId c = ''gav://A''"
    by (auto simp: nodeChildren_def cyclicTree_def GavPackageTypeIdentifier_def fmlookup_of_list)
  with new(3) have "Parent c = [''gav://B'', ''gav://A'']" "NodeHasLoop c \<longrightarrow> Nodes c = []"
    by simp_all
  with c(2) have "c = ?A"
    by (cases c) (simp add: NodeHasLoop_def)
  with new(1) c(1) show "populateDependencyTree ?B ''B'' cyclicTree {}
     = (GraphNode ''gav://B'' [?A] [''gav://A''], {''gav://A''})"
    by simp
qed

section \<open>Ids that the plugin tree does not list\<close>

lemma populateDependencyTree_no_children:
  assumes "nodeChildren moduleTree currNodeId = []"
  shows "populateDependencyTree currNode currNodeId moduleTree u = (currNode, u)"
proof (cases "NodeHasLoop currNode")
  case True
  then show ?thesis by (rule populateDependencyTree_loop)
next
  case False
  then show ?thesis by (simp add: populateDependencyTree_step assms)
qed

text \<open>
  Claim C8. For a plugin tree made of a root and an empty \<^verbatim>\<open>Nodes\<close> map the populator
  leaves the prefixed root node without children, so that the graph is that one node;
  and for every node id that the \<^verbatim>\<open>Nodes\<close> map does not have, the children read are the
  empty sequence and the expansion returns the node and the set as they were. The
  populator has no error return.
\<close>

theorem populateDependencyTree_missing_node:
  "populateDependencyTree (GraphNode (GavPackageTypeIdentifier @ root) [] []) root
       \<lparr>Root = root, TreeNodes = fmempty\<rparr> u
     = (GraphNode (GavPackageTypeIdentifier @ root) [] [], u) \<and>
   (parseDepTreeFiles fs Unmarshal depTreeOutput = Inr [Some \<lparr>Root = root, TreeNodes = fmempty\<rparr>] \<longrightarrow>
      getGraphFromDepTree fs Unmarshal depTreeOutput
        = Inr ([GraphNode (GavPackageTypeIdentifier @ root) [] []], {})) \<and>
   (fmlookup (TreeNodes moduleTree) currNodeId = None \<longrightarrow>
      nodeChildren moduleTree currNodeId = [] \<and>
      populateDependencyTree currNode currNodeId moduleTree u = (currNode, u))"
proof (intro conjI impI)
  show root: "populateDependencyTree (GraphNode (GavPackageTypeIdentifier @ root) [] []) root
       \<lparr>Root = root, TreeNodes = fmempty\<rparr> u
     = (GraphNode (GavPackageTypeIdentifier @ root) [] [], u)" for u
    by (rule populateDependencyTree_no_children) (simp add: nodeChildren_def)
  assume "parseDepTreeFiles fs Unmarshal depTreeOutput = Inr [Some \<lparr>Root = root, TreeNodes = fmempty\<rparr>]"
  then show "getGraphFromDepTree fs Unmarshal depTreeOutput
        = Inr ([GraphNode (GavPackageTypeIdentifier @ root) [] []], {})"
    by (simp add: getGraphFromDepTree_def root)
next
  assume "fmlookup (TreeNodes moduleTree) currNodeId = None"
  then show "nodeChildren moduleTree currNodeId = []"
    by (simp add: nodeChildren_def)
  then show "populateDependencyTree currNode currNodeId moduleTree u = (currNode, u)"
    by (rule populateDependencyTree_no_children)
qed

text \<open>
  One output file with the root r and no nodes gives the single node gav://r; and in a
  tree where r lists x and x is not a key, the node of x stays as it is.
\<close>

theorem populateDependencyTree_missing_node_witness:
  "getGraphFromDepTree [''a.json'' \<mapsto> ''{root: r}'']
       (\<lambda>depTreeJson. Decoded \<lparr>Root = ''r'', TreeNodes = fmempty\<rparr>) ''a.json''
     = Inr ([GraphNode ''gav://r'' [] []], {}) \<and>
   populateDependencyTree (GraphNode ''gav://x'' [] [''gav://r'']) ''x''
       \<lparr>Root = ''r'', TreeNodes = fmap_of_list [(''r'', \<lparr>Children = [''x'']\<rparr>)]\<rparr> {''gav://x''}
     = (GraphNode ''gav://x'' [] [''gav://r''], {''gav://x''})"
proof
  let ?fs = "[''a.json'' \<mapsto> ''{root: r}'']"
  let ?um = "\<lambda>depTreeJson :: string. Decoded \<lparr>Root = ''r'', TreeNodes = fmempty\<rparr>"
  have "parseDepTreeFiles ?fs ?um ''a.json'' = Inr [Some \<lparr>Root = ''r'', TreeNodes = fmempty\<rparr>]"
    by (simp add: parseDepTreeFiles_def parseDepTreeFile_def ReadFile_def Split_def TrimSpace_def
        TrimLeft.simps TrimRight.simps leadingSpace_def trailingSpace_def spaceRunes_def)
  with populateDependencyTree_missing_node [of "''r''" "{}" ?fs ?um "''a.json''"]
  show "getGraphFromDepTree ?fs ?um ''a.json'' = Inr ([GraphNode ''gav://r'' [] []], {})"
    by (simp add: GavPackageTypeIdentifier_def)
  let ?t = "\<lparr>Root = ''r'', TreeNodes = fmap_of_list [(''r'', \<lparr>Children = [''x'']\<rparr>)]\<rparr>"
  have "fmlookup (TreeNodes ?t) ''x'' = None"
    by (simp add: fmlookup_of_list)
  with populateDependencyTree_missing_node [of _ _ _ _ _ ?t "''x''"]
  show "populateDependencyTree (GraphNode ''gav://x'' [] [''gav://r'']) ''x'' ?t {''gav://x''}
     = (GraphNode ''gav://x'' [] [''gav://r''], {''gav://x''})"
    by blast
qed

section \<open>The ancestor list of the requested-by populator\<close>

text \<open>
  Claim C4. The requested-by populator carries the list of the raw ids on the current
  path. A candidate whose raw id is in that list gets no node and nothing is appended to
  its parent: the parent and the set come back unchanged. A candidate that is not in the
  list always gets a node with the prefixed id, which is added to the unique set and
  appended to the parent; its children are populated with the list extended by the
  candidate's raw id.
\<close>

theorem populateTransitiveDependencies_ancestors:
  "hasLoop idsAdded dependencyId = (dependencyId \<in> set idsAdded) \<and>
   (dependencyId \<in> set idsAdded \<longrightarrow>
      populateTransitiveDependencies ord parent dependencyId parentToChildren idsAdded u
        = (parent, u)) \<and>
   (dependencyId \<notin> set idsAdded \<longrightarrow>
      (\<exists>node u'.
         populateTransitiveDependencies ord parent dependencyId parentToChildren idsAdded u
           = (appendNode parent node, u') \<and>
         NodeId node = GavPackageTypeIdentifier @ dependencyId \<and>
         NodeId node \<in> u' \<and> u \<subseteq> u' \<and>
         (node, u') =
           fold (\<lambda>child acc.
                   populateTransitiveDependencies ord (fst acc) (DependencyId (snd child))
                     parentToChildren (idsAdded @ [dependencyId]) (snd acc))
                (rangeMap ord (getChildren parentToChildren (GavPackageTypeIdentifier @ dependencyId)))
                (GraphNode (GavPackageTypeIdentifier @ dependencyId) [] [],
                 insert (GavPackageTypeIdentifier @ dependencyId) u)))"
proof (intro conjI impI)
  show "hasLoop idsAdded dependencyId = (dependencyId \<in> set idsAdded)"
    by (rule hasLoop_iff)
next
  assume "dependencyId \<in> set idsAdded"
  then show "populateTransitiveDependencies ord parent dependencyId parentToChildren idsAdded u
        = (parent, u)"
    by (simp add: populateTransitiveDependencies_loop hasLoop_iff)
next
  assume off: "dependencyId \<notin> set idsAdded"
  define r where "r = fold (\<lambda>child acc.
                   populateTransitiveDependencies ord (fst acc) (DependencyId (snd child))
                     parentToChildren (idsAdded @ [dependencyId]) (snd acc))
                (rangeMap ord (getChildren parentToChildren (GavPackageTypeIdentifier @ dependencyId)))
                (GraphNode (GavPackageTypeIdentifier @ dependencyId) [] [],
                 insert (GavPackageTypeIdentifier @ dependencyId) u)"
  have res: "populateTransitiveDependencies ord parent dependencyId parentToChildren idsAdded u
               = (appendNode parent (fst r), snd r)"
    using off by (simp add: populateTransitiveDependencies_step hasLoop_iff r_def Let_def)
  have "\<exists>new. populateTransitiveDependencies ord parent dependencyId parentToChildren idsAdded u
                 = grown parent new u \<and>
               map NodeId new = (if dependencyId \<in> set idsAdded then []
                                 else [GavPackageTypeIdentifier @ dependencyId]) \<and>
               list_all ((\<lambda>ids n. True) idsAdded) new"
    by (rule populateTransitiveDependencies_grown [where D = UNIV]) simp_all
  then obtain node where node: "(appendNode parent (fst r), snd r) = grown parent [node] u"
      "NodeId node = GavPackageTypeIdentifier @ dependencyId"
    using off unfolding res by auto
  then have "fst r = node" "snd r = u \<union> nodeIds node"
    by (simp_all add: grown_def appendNode_def)
  with node(2) have "NodeId (fst r) \<in> snd r" "u \<subseteq> snd r"
      "NodeId (fst r) = GavPackageTypeIdentifier @ dependencyId"
    using NodeId_in_nodeIds [of "fst r"] by auto
  with res show "\<exists>node u'.
         populateTransitiveDependencies ord parent dependencyId parentToChildren idsAdded u
           = (appendNode parent node, u') \<and>
         NodeId node = GavPackageTypeIdentifier @ dependencyId \<and>
         NodeId node \<in> u' \<and> u \<subseteq> u' \<and>
         (node, u') =
           fold (\<lambda>child acc.
                   populateTransitiveDependencies ord (fst acc) (DependencyId (snd child))
                     parentToChildren (idsAdded @ [dependencyId]) (snd acc))
                (rangeMap ord (getChildren parentToChildren (GavPackageTypeIdentifier @ dependencyId)))
                (GraphNode (GavPackageTypeIdentifier @ dependencyId) [] [],
                 insert (GavPackageTypeIdentifier @ dependencyId) u)"
    by (intro exI[of _ "fst r"] exI[of _ "snd r"]) (simp add: r_def)
qed


text \<open>
  In the multimap where b is a child of a and a is a child of b: below a and b the
  candidate a is dropped, and below a the candidate b gets a node, which stays without
  children because its only candidate child is a.
\<close>

theorem populateTransitiveDependencies_ancestors_witness:
  "populateTransitiveDependencies (\<lambda>key. 0) (GraphNode ''gav://b'' [] []) ''a'' cyclicMultimap
       [''a'', ''b''] {''gav://a'', ''gav://b''}
     = (GraphNode ''gav://b'' [] [], {''gav://a'', ''gav://b''}) \<and>
   populateTransitiveDependencies (\<lambda>key. 0) (GraphNode ''gav://a'' [] []) ''b'' cyclicMultimap
       [''a''] {''gav://a''}
     = (GraphNode ''gav://a'' [GraphNode ''gav://b'' [] []] [], {''gav://a'', ''gav://b''})"
proof
  have onPath: "populateTransitiveDependencies (\<lambda>key. 0) parent ''a'' cyclicMultimap [''a'', ''b''] u
                  = (parent, u)" for parent u
    using populateTransitiveDependencies_ancestors
            [of "[''a'', ''b'']" "''a''" "\<lambda>key. 0" parent cyclicMultimap u]
    by simp
  then show "populateTransitiveDependencies (\<lambda>key. 0) (GraphNode ''gav://b'' [] []) ''a''
       cyclicMultimap [''a'', ''b''] {''gav://a'', ''gav://b''}
     = (GraphNode ''gav://b'' [] [], {''gav://a'', ''gav://b''})" .
  have "''b'' \<notin> set [''a'']"
    by simp
  with populateTransitiveDependencies_ancestors
         [of "[''a'']" "''b''" "\<lambda>key. 0" "GraphNode ''gav://a'' [] []" cyclicMultimap "{''gav://a''}"]
  obtain node u' where r:
      "populateTransitiveDependencies (\<lambda>key. 0) (GraphNode ''gav://a'' [] []) ''b'' cyclicMultimap
         [''a''] {''gav://a''} = (appendNode (GraphNode ''gav://a'' [] []) node, u')"
      "(node, u') =
           fold (\<lambda>child acc.
                   populateTransitiveDependencies (\<lambda>key. 0) (fst acc) (DependencyId (snd child))
                     cyclicMultimap ([''a''] @ [''b'']) (snd acc))
                (rangeMap (\<lambda>key. 0) (getChildren cyclicMultimap (GavPackageTypeIdentifier @ ''b'')))
                (GraphNode (GavPackageTypeIdentifier @ ''b'') [] [],
                 insert (GavPackageTypeIdentifier @ ''b'') {''gav://a''})"
    by blast
  have "getChildren cyclicMultimap ''gav://b''
          = [(''a'', \<lparr>DependencyId = ''a'', RequestedBy = [[''b'']]\<rparr>)]"
    by (simp add: cyclicMultimap_def getChildren_def)
  with r(2) have "node = GraphNode ''gav://b'' [] []" "u' = {''gav://a'', ''gav://b''}"
    by (auto simp: GavPackageTypeIdentifier_def rangeMap_def onPath)
  with r(1) show "populateTransitiveDependencies (\<lambda>key. 0) (GraphNode ''gav://a'' [] []) ''b''
       cyclicMultimap [''a''] {''gav://a''}
     = (GraphNode ''gav://a'' [GraphNode ''gav://b'' [] []] [], {''gav://a'', ''gav://b''})"
    by (simp add: appendNode_def)
qed

section \<open>Cycles\<close>





lemma cyclicMultimap_eval:
  "populateTransitiveDependencies (\<lambda>key. 0) (GraphNode ''gav://m'' [] []) ''a'' cyclicMultimap [] {''gav://m''}
     = (GraphNode ''gav://m'' [GraphNode ''gav://a'' [GraphNode ''gav://b'' [] []] []] [],
        {''gav://m'', ''gav://a'', ''gav://b''})"
  by (simp add: populateTransitiveDependencies_step populateTransitiveDependencies_loop
      getChildren_def cyclicMultimap_def rangeMap_def appendNode_def GavPackageTypeIdentifier_def
      insert_commute)





section \<open>The trees of the modules\<close>

lemma set_update_subset: "set (AList.update k v al) \<subseteq> insert (k, v) (set al)"
  by (induction al) auto

lemma childIds_putChild:
  "childIds (putChild dm parent child) \<subseteq> insert (DependencyId child) (childIds dm)"
proof
  fix i
  assume "i \<in> childIds (putChild dm parent child)"
  then obtain p children kv where kv: "(p, children) \<in> set (putChild dm parent child)"
      "kv \<in> set children" "i = DependencyId (snd kv)"
    by (auto simp: childIds_def)
  from kv(1) consider
      "children = AList.update (DependencyId child) child (getChildren dm parent)"
    | "(p, children) \<in> set dm"
    using set_update_subset by (fastforce simp: putChild_def)
  then show "i \<in> insert (DependencyId child) (childIds dm)"
  proof cases
    case 1
    with kv(2) have "kv = (DependencyId child, child) \<or> kv \<in> set (getChildren dm parent)"
      using set_update_subset by fastforce
    with kv(3) show ?thesis
      by (auto dest: getChildren_childIds)
  next
    case 2
    with kv show ?thesis
      by (force simp: childIds_def)
  qed
qed

lemma addModuleTree_parents_childIds:
  "addModuleTree_parents parentToChildren requestedBy dependency = Inr parentToChildren'
     \<Longrightarrow> childIds parentToChildren' \<subseteq> insert (DependencyId dependency) (childIds parentToChildren)"
proof (induction requestedBy arbitrary: parentToChildren)
  case Nil
  then show ?case by auto
next
  case (Cons chain requestedBy)
  show ?case
  proof (cases chain)
    case Nil
    with Cons.prems show ?thesis by simp
  next
    case (Cons first rest)
    with Cons.prems Cons.IH [of "putChild parentToChildren (GavPackageTypeIdentifier @ first) dependency"]
    show ?thesis
      using childIds_putChild by fastforce
  qed
qed

lemma addModuleTree_dependencies_ids:
  "addModuleTree_dependencies moduleId deps directDependencies parentToChildren
     = Inr (directDependencies', parentToChildren')
     \<Longrightarrow> snd ` set directDependencies' \<subseteq> snd ` set directDependencies \<union> set deps \<and>
         childIds parentToChildren' \<subseteq> childIds parentToChildren \<union> DependencyId ` set deps"
proof (induction deps arbitrary: directDependencies parentToChildren)
  case Nil
  then show ?case by auto
next
  case (Cons dependency deps)
  show ?case
  proof (cases "isDirectDependency moduleId (RequestedBy dependency)")
    case (Inl e)
    with Cons.prems show ?thesis by simp
  next
    case (Inr direct)
    show ?thesis
    proof (cases direct)
      case True
      with Inr Cons.prems
      have "snd ` set directDependencies'
              \<subseteq> snd ` set (AList.update (DependencyId dependency) dependency directDependencies)
                  \<union> set deps"
        and "childIds parentToChildren' \<subseteq> childIds parentToChildren \<union> DependencyId ` set deps"
        using Cons.IH by simp_all
      moreover have "snd ` set (AList.update (DependencyId dependency) dependency directDependencies)
              \<subseteq> insert dependency (snd ` set directDependencies)"
        using set_update_subset by fastforce
      ultimately show ?thesis
        by (intro conjI) (simp_all, blast+)
    next
      case False
      with Inr Cons.prems obtain p2c where p2c:
          "addModuleTree_parents parentToChildren (RequestedBy dependency) dependency = Inr p2c"
          "addModuleTree_dependencies moduleId deps directDependencies p2c
             = Inr (directDependencies', parentToChildren')"
        by (auto split: sum.splits)
      from p2c(2) have "snd ` set directDependencies' \<subseteq> snd ` set directDependencies \<union> set deps"
        and "childIds parentToChildren' \<subseteq> childIds p2c \<union> DependencyId ` set deps"
        using Cons.IH by simp_all
      moreover from p2c(1)
      have "childIds p2c \<subseteq> insert (DependencyId dependency) (childIds parentToChildren)"
        by (rule addModuleTree_parents_childIds)
      ultimately show ?thesis
        by (intro conjI) (simp_all, blast+)
    qed
  qed
qed

lemma childIds_empty: "childIds newDependencyMultimap = {}"
  by (simp add: childIds_def newDependencyMultimap_def)

text \<open>
  The induction principle of the requested-by populator, lifted to the tree of a module.
\<close>

lemma addModuleTree_grown:
  assumes res: "addModuleTree ord module u = Inr (tree, u')"
    and step: "\<And>ids d kids. d \<in> DependencyId ` set (Dependencies module) \<Longrightarrow> d \<notin> set ids
                 \<Longrightarrow> list_all (Q (ids @ [d])) kids
                 \<Longrightarrow> Q ids (GraphNode (GavPackageTypeIdentifier @ d) kids [])"
  shows "\<exists>direct p2c new.
           addModuleTree_dependencies (ModuleId module) (Dependencies module) [] newDependencyMultimap
             = Inr (direct, p2c) \<and>
           (tree, u') = grown (GraphNode (GavPackageTypeIdentifier @ ModuleId module) [] []) new
                          (insert (GavPackageTypeIdentifier @ ModuleId module) u) \<and>
           map NodeId new = map (\<lambda>e. GavPackageTypeIdentifier @ DependencyId (snd e))
                              (rangeMap ord direct) \<and>
           list_all (Q []) new"
proof -
  define D where "D = DependencyId ` set (Dependencies module)"
  define root where "root = GraphNode (GavPackageTypeIdentifier @ ModuleId module) [] []"
  from res obtain direct p2c where loop:
      "addModuleTree_dependencies (ModuleId module) (Dependencies module) [] newDependencyMultimap
         = Inr (direct, p2c)"
    and tree: "(tree, u') =
        fold (\<lambda>directDependency (tree, u).
                populateTransitiveDependencies ord tree (DependencyId (snd directDependency)) p2c [] u)
             (rangeMap ord direct)
             (root, insert (GavPackageTypeIdentifier @ ModuleId module) u)"
    by (auto simp: addModuleTree_def Let_def root_def split: sum.splits)
  from addModuleTree_dependencies_ids [OF loop]
  have ids: "snd ` set direct \<subseteq> set (Dependencies module)" "childIds p2c \<subseteq> D"
    by (simp_all add: childIds_empty D_def)
  have "\<exists>new. fold (\<lambda>directDependency (tree, u).
                populateTransitiveDependencies ord tree (DependencyId (snd directDependency)) p2c [] u)
             (rangeMap ord direct)
             (root, insert (GavPackageTypeIdentifier @ ModuleId module) u)
           = grown (fst (root, insert (GavPackageTypeIdentifier @ ModuleId module) u)) new
                   (snd (root, insert (GavPackageTypeIdentifier @ ModuleId module) u)) \<and>
          map NodeId new = concat (map (\<lambda>e. [GavPackageTypeIdentifier @ DependencyId (snd e)])
                                     (rangeMap ord direct)) \<and>
          list_all (Q []) new"
  proof (rule fold_grown)
    fix e :: "string \<times> Dependency" and acc :: "GraphNode \<times> uniqueDeps"
    assume "e \<in> set (rangeMap ord direct)"
    then have d: "DependencyId (snd e) \<in> D"
      using ids(1) by (auto simp: rangeMap_def D_def)
    have "\<exists>new. populateTransitiveDependencies ord (fst acc) (DependencyId (snd e)) p2c [] (snd acc)
                   = grown (fst acc) new (snd acc) \<and>
                 map NodeId new = (if DependencyId (snd e) \<in> set [] then []
                                   else [GavPackageTypeIdentifier @ DependencyId (snd e)]) \<and>
                 list_all (Q []) new"
      using d ids(2) by (intro populateTransitiveDependencies_grown [where D = D])
                         (auto simp: D_def intro: step)
    then show "\<exists>new. (case acc of (tree, u) \<Rightarrow>
                   populateTransitiveDependencies ord tree (DependencyId (snd e)) p2c [] u)
                   = grown (fst acc) new (snd acc) \<and>
                 map NodeId new = [GavPackageTypeIdentifier @ DependencyId (snd e)] \<and>
                 list_all (Q []) new"
      by (simp add: case_prod_unfold)
  qed
  then obtain new where
      "(tree, u') = grown root new (insert (GavPackageTypeIdentifier @ ModuleId module) u)"
      "map NodeId new = map (\<lambda>e. GavPackageTypeIdentifier @ DependencyId (snd e)) (rangeMap ord direct)"
      "list_all (Q []) new"
    using tree by (auto simp: concat_map_singleton)
  with loop show ?thesis
    unfolding root_def by blast
qed


lemma list_all_nodeIds: "list_all (\<lambda>n. nodeIds n \<subseteq> S) ns \<longleftrightarrow> graphIds ns \<subseteq> S"
  by (auto simp: graphIds_def list_all_iff)

lemma addModuleTree_ids:
  assumes "addModuleTree ord module u = Inr (tree, u')"
  shows "nodeIds tree \<subseteq> (\<lambda>raw. GavPackageTypeIdentifier @ raw) `
                          insert (ModuleId module) (DependencyId ` set (Dependencies module))"
    and "u' = u \<union> nodeIds tree"
proof -
  define S where "S = (\<lambda>raw. GavPackageTypeIdentifier @ raw) `
                          insert (ModuleId module) (DependencyId ` set (Dependencies module))"
  have "\<exists>direct p2c new.
           addModuleTree_dependencies (ModuleId module) (Dependencies module) [] newDependencyMultimap
             = Inr (direct, p2c) \<and>
           (tree, u') = grown (GraphNode (GavPackageTypeIdentifier @ ModuleId module) [] []) new
                          (insert (GavPackageTypeIdentifier @ ModuleId module) u) \<and>
           map NodeId new = map (\<lambda>e. GavPackageTypeIdentifier @ DependencyId (snd e))
                              (rangeMap ord direct) \<and>
           list_all ((\<lambda>ids n. nodeIds n \<subseteq> S) []) new"
    using assms
  proof (rule addModuleTree_grown)
    fix ids :: "string list" and d :: string and kids :: "GraphNode list"
    assume "d \<in> DependencyId ` set (Dependencies module)"
      and "list_all (\<lambda>n. nodeIds n \<subseteq> S) kids"
    then show "nodeIds (GraphNode (GavPackageTypeIdentifier @ d) kids []) \<subseteq> S"
      by (auto simp: S_def list_all_iff)
  qed
  then obtain new where new: "tree = GraphNode (GavPackageTypeIdentifier @ ModuleId module) new []"
      "u' = insert (GavPackageTypeIdentifier @ ModuleId module) u \<union> graphIds new"
      "graphIds new \<subseteq> S"
    by (auto simp: grown_def list_all_nodeIds)
  have ids: "nodeIds tree = insert (GavPackageTypeIdentifier @ ModuleId module) (graphIds new)"
    by (simp add: new(1) graphIds_def)
  show "nodeIds tree \<subseteq> S"
    using new(3) by (simp add: ids S_def)
  show "u' = u \<union> nodeIds tree"
    using new(2) by (simp add: ids)
qed

lemma createGavDependencyTree_modules_ids:
  assumes "createGavDependencyTree_modules ord modules graph u = Inr (graph', u')"
  shows "\<exists>trees. graph' = graph @ trees \<and> u' = u \<union> graphIds trees \<and>
           graphIds trees \<subseteq> (\<lambda>raw. GavPackageTypeIdentifier @ raw) `
             (\<Union>module \<in> set modules.
                insert (ModuleId module) (DependencyId ` set (Dependencies module)))"
  using assms
proof (induction modules arbitrary: graph u)
  case Nil
  then show ?case by simp
next
  case (Cons module modules)
  from Cons.prems obtain tree u1 where tree: "addModuleTree ord module u = Inr (tree, u1)"
    and rest: "createGavDependencyTree_modules ord modules (graph @ [tree]) u1 = Inr (graph', u')"
    by (auto split: sum.splits)
  from Cons.IH [OF rest] obtain trees where trees: "graph' = (graph @ [tree]) @ trees"
      "u' = u1 \<union> graphIds trees"
      "graphIds trees \<subseteq> (\<lambda>raw. GavPackageTypeIdentifier @ raw) `
             (\<Union>module \<in> set modules.
                insert (ModuleId module) (DependencyId ` set (Dependencies module)))"
    by blast
  note t = addModuleTree_ids [OF tree]
  have "graph' = graph @ (tree # trees)" "u' = u \<union> graphIds (tree # trees)"
    using trees(1,2) t(2) by auto
  moreover have "graphIds (tree # trees) \<subseteq> (\<lambda>raw. GavPackageTypeIdentifier @ raw) `
             (\<Union>module \<in> set (module # modules).
                insert (ModuleId module) (DependencyId ` set (Dependencies module)))"
    using trees(3) t(1) by (simp add: image_Un) blast
  ultimately show ?case
    by blast
qed

lemma nodeChildren_treeRawIds:
  "c \<in> set (nodeChildren moduleTree i) \<Longrightarrow> c \<in> treeRawIds moduleTree"
  using nodeChildren_treeChildIds [of c moduleTree i]
  by (auto simp: treeChildIds_def treeRawIds_def)

lemma populateDependencyTree_ids:
  assumes "populateDependencyTree (GraphNode (GavPackageTypeIdentifier @ Root moduleTree) [] [])
             (Root moduleTree) moduleTree u = (tree, u')"
  shows "nodeIds tree \<subseteq> (\<lambda>raw. GavPackageTypeIdentifier @ raw) ` treeRawIds moduleTree"
    and "u' = u \<union> graphIds (Nodes tree)"
    and "NodeId tree = GavPackageTypeIdentifier @ Root moduleTree"
proof -
  define S where "S = (\<lambda>raw. GavPackageTypeIdentifier @ raw) ` treeRawIds moduleTree"
  define root where "root = GraphNode (GavPackageTypeIdentifier @ Root moduleTree) [] []"
  have "\<exists>new. populateDependencyTree root (Root moduleTree) moduleTree u = grown root new u \<and>
               map NodeId new = (if NodeHasLoop root then []
                                 else map (\<lambda>c. GavPackageTypeIdentifier @ c)
                                        (nodeChildren moduleTree (Root moduleTree))) \<and>
               list_all ((\<lambda>chain n. nodeIds n \<subseteq> S) (NodeId root # Parent root)) new"
  proof (rule populateDependencyTree_grown)
    fix i c :: string and kids :: "GraphNode list" and chain :: "string list"
    assume "c \<in> set (nodeChildren moduleTree i)" "list_all (\<lambda>n. nodeIds n \<subseteq> S) kids"
    then show "nodeIds (GraphNode (GavPackageTypeIdentifier @ c) kids chain) \<subseteq> S"
      by (auto simp: S_def list_all_iff dest: nodeChildren_treeRawIds)
  qed
  then obtain new where new: "tree = GraphNode (GavPackageTypeIdentifier @ Root moduleTree) new []"
      "u' = u \<union> graphIds new" "graphIds new \<subseteq> S"
    using assms by (auto simp: grown_def list_all_nodeIds root_def)
  show "nodeIds tree \<subseteq> (\<lambda>raw. GavPackageTypeIdentifier @ raw) ` treeRawIds moduleTree"
    using new(3) by (simp add: new(1) graphIds_def[symmetric] S_def treeRawIds_def)
  show "u' = u \<union> graphIds (Nodes tree)"
    by (simp add: new)
  show "NodeId tree = GavPackageTypeIdentifier @ Root moduleTree"
    by (simp add: new)
qed

text \<open>The raw coordinates of the module trees that were parsed.\<close>

lemma getGraphFromDepTree_range_ids:
  assumes "getGraphFromDepTree_range modules graph u = Inr (graph', u')"
  shows "\<exists>trees. graph' = graph @ trees \<and>
           map NodeId trees = map (\<lambda>m. GavPackageTypeIdentifier @ Root (the m)) modules \<and>
           u' = u \<union> (\<Union>tree \<in> set trees. graphIds (Nodes tree)) \<and>
           graphIds trees \<subseteq> (\<lambda>raw. GavPackageTypeIdentifier @ raw) `
             (\<Union>m \<in> set modules. case m of None \<Rightarrow> {} | Some moduleTree \<Rightarrow> treeRawIds moduleTree)"
  using assms
proof (induction modules arbitrary: graph u)
  case Nil
  then show ?case by simp
next
  case (Cons m modules)
  from Cons.prems obtain moduleTree where m: "m = Some moduleTree"
    by (cases m) auto
  obtain tree u1 where tree:
      "populateDependencyTree (GraphNode (GavPackageTypeIdentifier @ Root moduleTree) [] [])
         (Root moduleTree) moduleTree u = (tree, u1)"
    by (cases "populateDependencyTree (GraphNode (GavPackageTypeIdentifier @ Root moduleTree) [] [])
         (Root moduleTree) moduleTree u")
  with Cons.prems m
  have rest: "getGraphFromDepTree_range modules (graph @ [tree]) u1 = Inr (graph', u')"
    by simp
  from Cons.IH [OF rest] obtain trees where trees: "graph' = (graph @ [tree]) @ trees"
      "map NodeId trees = map (\<lambda>m. GavPackageTypeIdentifier @ Root (the m)) modules"
      "u' = u1 \<union> (\<Union>tree \<in> set trees. graphIds (Nodes tree))"
      "graphIds trees \<subseteq> (\<lambda>raw. GavPackageTypeIdentifier @ raw) `
             (\<Union>m \<in> set modules. case m of None \<Rightarrow> {} | Some moduleTree \<Rightarrow> treeRawIds moduleTree)"
    by blast
  note t = populateDependencyTree_ids [OF tree]
  have "graph' = graph @ (tree # trees)"
      "map NodeId (tree # trees) = map (\<lambda>m. GavPackageTypeIdentifier @ Root (the m)) (m # modules)"
      "u' = u \<union> (\<Union>tree \<in> set (tree # trees). graphIds (Nodes tree))"
    using trees(1,2,3) t(2,3) m by auto
  moreover have "graphIds (tree # trees) \<subseteq> (\<lambda>raw. GavPackageTypeIdentifier @ raw) `
             (\<Union>m \<in> set (m # modules). case m of None \<Rightarrow> {} | Some moduleTree \<Rightarrow> treeRawIds moduleTree)"
    using trees(4) t(1) m by (simp add: image_Un) blast
  ultimately show ?case
    by blast
qed


section \<open>The unique-dependency set and the ids of the graph\<close>

text \<open>
  For the requested-by model the set that comes with the graph is the set of the ids of
  the graph (\<open>createGavDependencyTree_uniqueDeps\<close>). For the plugin-tree model it is the
  set of the ids below the roots (\<open>getGraphFromDepTree_uniqueDeps\<close>):
  \<^verbatim>\<open>getGraphFromDepTree\<close> makes the root node of a module and never adds its id, where
  \<^verbatim>\<open>addModuleTree\<close> adds the id of the module's root first.
\<close>

lemma createGavDependencyTree_uniqueDeps:
  assumes "createGavDependencyTree ord GetGeneratedBuildsInfo buildConfig = Inr (graph, u)"
  shows "u = graphIds graph"
    and "graphIds graph \<subseteq> range (\<lambda>raw. GavPackageTypeIdentifier @ raw)"
proof -
  from assms obtain modules where
      "createGavDependencyTree_modules ord modules [] {} = Inr (graph, u)"
    by (auto simp: createGavDependencyTree_def split: sum.splits list.splits)
  from createGavDependencyTree_modules_ids [OF this]
  show "u = graphIds graph" "graphIds graph \<subseteq> range (\<lambda>raw. GavPackageTypeIdentifier @ raw)"
    by auto
qed

lemma getGraphFromDepTree_uniqueDeps:
  assumes "getGraphFromDepTree fs Unmarshal depTreeOutput = Inr (graph, u)"
  shows "u = (\<Union>tree \<in> set graph. graphIds (Nodes tree))"
    and "graphIds graph \<subseteq> range (\<lambda>raw. GavPackageTypeIdentifier @ raw)"
proof -
  from assms obtain modules where
      "getGraphFromDepTree_range modules [] {} = Inr (graph, u)"
    by (auto simp: getGraphFromDepTree_def split: sum.splits)
  from getGraphFromDepTree_range_ids [OF this]
  show "u = (\<Union>tree \<in> set graph. graphIds (Nodes tree))"
    "graphIds graph \<subseteq> range (\<lambda>raw. GavPackageTypeIdentifier @ raw)"
    by auto
qed

lemma exampleModule_eval:
  "addModuleTree (\<lambda>key. 0) exampleModule {}
     = Inr (GraphNode ''gav://m'' [GraphNode ''gav://b'' [GraphNode ''gav://c'' [] []] []] [],
            {''gav://m'', ''gav://b'', ''gav://c''})"
  by (simp add: addModuleTree_def exampleModule_def isDirectDependency_def putChild_def
      newDependencyMultimap_def getChildren_def rangeMap_def appendNode_def
      populateTransitiveDependencies_step populateTransitiveDependencies_loop
      GavPackageTypeIdentifier_def insert_commute)

lemma exampleFiles_parse:
  "parseDepTreeFiles exampleFiles (\<lambda>depTreeJson. Decoded moduleTree) ''a.json''
     = Inr [Some moduleTree]"
  by (simp add: parseDepTreeFiles_def parseDepTreeFile_def ReadFile_def Split_def TrimSpace_def
      TrimLeft.simps TrimRight.simps leadingSpace_def trailingSpace_def spaceRunes_def
      exampleFiles_def)

lemma exampleTree_eval:
  "populateDependencyTree (GraphNode ''gav://r'' [] []) ''r'' exampleTree {}
     = (GraphNode ''gav://r'' [GraphNode ''gav://x'' [] [''gav://r'']] [], {''gav://x''})"
  by (simp add: populateDependencyTree_step populateDependencyTree_loop NodeHasLoop_def
      nodeChildren_def exampleTree_def fmlookup_of_list appendNode_def GavPackageTypeIdentifier_def)

lemma exampleTree_graph:
  "getGraphFromDepTree exampleFiles (\<lambda>depTreeJson. Decoded exampleTree) ''a.json''
     = Inr ([GraphNode ''gav://r'' [GraphNode ''gav://x'' [] [''gav://r'']] []], {''gav://x''})"
proof -
  have "getGraphFromDepTree_range [Some exampleTree] [] {}
          = Inr ([GraphNode ''gav://r'' [GraphNode ''gav://x'' [] [''gav://r'']] []], {''gav://x''})"
    using exampleTree_eval by (simp add: exampleTree_def GavPackageTypeIdentifier_def)
  then show ?thesis
    by (simp add: getGraphFromDepTree_def exampleFiles_parse)
qed

lemma exampleTree_treeRawIds: "treeRawIds exampleTree = {''r'', ''x''}"
  by (auto simp: treeRawIds_def exampleTree_def fmlookup_ran'_iff fmlookup_of_list split: if_splits)

lemma exampleModule_graph:
  "createGavDependencyTree (\<lambda>key. 0)
       (\<lambda>buildName buildNumber project. Inr [\<lparr>Modules = [exampleModule]\<rparr>]) exampleBuildConfig
     = Inr ([GraphNode ''gav://m'' [GraphNode ''gav://b'' [GraphNode ''gav://c'' [] []] []] []],
            {''gav://m'', ''gav://b'', ''gav://c''})"
  by (simp add: createGavDependencyTree_def exampleBuildConfig_def exampleModule_eval)

text \<open>
  Claim C1 says that the set returned with the graph is the set of the ids of the graph,
  module roots included, for both models. The plugin-tree model breaks it: for one
  output file whose tree has the root r with the single child x, the graph has the ids
  gav://r and gav://x and the set is just gav://x.
\<close>

theorem getGraphFromDepTree_leaves_root_out:
  "getGraphFromDepTree exampleFiles (\<lambda>depTreeJson. Decoded exampleTree) ''a.json''
     = Inr ([GraphNode ''gav://r'' [GraphNode ''gav://x'' [] [''gav://r'']] []], {''gav://x''}) \<and>
   graphIds [GraphNode ''gav://r'' [GraphNode ''gav://x'' [] [''gav://r'']] []]
     = {''gav://r'', ''gav://x''} \<and>
   ''gav://r'' \<notin> {''gav://x''}"
  by (simp add: exampleTree_graph)

section \<open>The prefix of the node ids\<close>

text \<open>
  Claim C7. The prefix is the constant gav://, and every node id of every output graph
  is the prefix followed by a raw coordinate of the input: in the tree of a module, by
  the module's id or by the id of one of its dependencies; in the graph of the plugin
  trees, by the root or by a listed child of one of the parsed trees, the roots of the
  graph being the prefixed roots of the trees in order. No node id is without the prefix.
\<close>

theorem node_ids_carry_the_prefix:
  "GavPackageTypeIdentifier = ''gav://'' \<and>
   (addModuleTree ord module u = Inr (tree, u1) \<longrightarrow>
      nodeIds tree \<subseteq> (\<lambda>raw. ''gav://'' @ raw) `
                       insert (ModuleId module) (DependencyId ` set (Dependencies module))) \<and>
   (createGavDependencyTree ord GetGeneratedBuildsInfo buildConfig = Inr (graph, u2) \<longrightarrow>
      graphIds graph \<subseteq> range (\<lambda>raw. ''gav://'' @ raw)) \<and>
   (getGraphFromDepTree_range modules [] {} = Inr (graph', u3) \<longrightarrow>
      map NodeId graph' = map (\<lambda>m. ''gav://'' @ Root (the m)) modules \<and>
      graphIds graph' \<subseteq> (\<lambda>raw. ''gav://'' @ raw) `
        (\<Union>m \<in> set modules. case m of None \<Rightarrow> {} | Some moduleTree \<Rightarrow> treeRawIds moduleTree)) \<and>
   (getGraphFromDepTree fs Unmarshal depTreeOutput = Inr (graph'', u4) \<longrightarrow>
      graphIds graph'' \<subseteq> range (\<lambda>raw. ''gav://'' @ raw))"
proof (intro conjI impI)
  show "GavPackageTypeIdentifier = ''gav://''"
    by (rule GavPackageTypeIdentifier_def)
next
  assume "addModuleTree ord module u = Inr (tree, u1)"
  from addModuleTree_ids(1) [OF this]
  show "nodeIds tree \<subseteq> (\<lambda>raw. ''gav://'' @ raw) `
                       insert (ModuleId module) (DependencyId ` set (Dependencies module))"
    by (simp add: GavPackageTypeIdentifier_def)
next
  assume "createGavDependencyTree ord GetGeneratedBuildsInfo buildConfig = Inr (graph, u2)"
  from createGavDependencyTree_uniqueDeps(2) [OF this]
  show "graphIds graph \<subseteq> range (\<lambda>raw. ''gav://'' @ raw)"
    by (simp add: GavPackageTypeIdentifier_def)
next
  assume "getGraphFromDepTree_range modules [] {} = Inr (graph', u3)"
  from getGraphFromDepTree_range_ids [OF this]
  show "map NodeId graph' = map (\<lambda>m. ''gav://'' @ Root (the m)) modules"
    and "graphIds graph' \<subseteq> (\<lambda>raw. ''gav://'' @ raw) `
        (\<Union>m \<in> set modules. case m of None \<Rightarrow> {} | Some moduleTree \<Rightarrow> treeRawIds moduleTree)"
    by (auto simp: GavPackageTypeIdentifier_def)
next
  assume "getGraphFromDepTree fs Unmarshal depTreeOutput = Inr (graph'', u4)"
  from getGraphFromDepTree_uniqueDeps(2) [OF this]
  show "graphIds graph'' \<subseteq> range (\<lambda>raw. ''gav://'' @ raw)"
    by (simp add: GavPackageTypeIdentifier_def)
qed


text \<open>
  The module m with the direct dependency b and c requested by b, as a tree and as the
  graph of a build; and the plugin tree with the root r and the child x, as a graph of
  parsed trees and as the graph of one output file.
\<close>

theorem node_ids_carry_the_prefix_witness:
  "nodeIds (GraphNode ''gav://m'' [GraphNode ''gav://b'' [GraphNode ''gav://c'' [] []] []] [])
     \<subseteq> (\<lambda>raw. ''gav://'' @ raw) ` {''m'', ''b'', ''c''} \<and>
   graphIds [GraphNode ''gav://m'' [GraphNode ''gav://b'' [GraphNode ''gav://c'' [] []] []] []]
     \<subseteq> range (\<lambda>raw. ''gav://'' @ raw) \<and>
   graphIds [GraphNode ''gav://r'' [GraphNode ''gav://x'' [] [''gav://r'']] []]
     \<subseteq> (\<lambda>raw. ''gav://'' @ raw) ` {''r'', ''x''} \<and>
   graphIds [GraphNode ''gav://r'' [GraphNode ''gav://x'' [] [''gav://r'']] []]
     \<subseteq> range (\<lambda>raw. ''gav://'' @ raw)"
proof -
  let ?mTree = "GraphNode ''gav://m'' [GraphNode ''gav://b'' [GraphNode ''gav://c'' [] []] []] []"
  let ?rTree = "GraphNode ''gav://r'' [GraphNode ''gav://x'' [] [''gav://r'']] []"
  have range: "getGraphFromDepTree_range [Some exampleTree] [] {} = Inr ([?rTree], {''gav://x''})"
    using exampleTree_eval by (simp add: exampleTree_def GavPackageTypeIdentifier_def)
  note th = node_ids_carry_the_prefix
      [of "\<lambda>key. 0" exampleModule "{}" ?mTree "{''gav://m'', ''gav://b'', ''gav://c''}"
          "\<lambda>buildName buildNumber project. Inr [\<lparr>Modules = [exampleModule]\<rparr>]" exampleBuildConfig
          "[?mTree]" "{''gav://m'', ''gav://b'', ''gav://c''}"
          "[Some exampleTree]" "[?rTree]" "{''gav://x''}"
          exampleFiles "\<lambda>depTreeJson. Decoded exampleTree" "''a.json''" "[?rTree]" "{''gav://x''}"]
  from th exampleModule_eval
  have 1: "nodeIds ?mTree \<subseteq> (\<lambda>raw. ''gav://'' @ raw) ` {''m'', ''b'', ''c''}"
    by (simp add: exampleModule_def insert_commute)
  from th exampleModule_graph have 2: "graphIds [?mTree] \<subseteq> range (\<lambda>raw. ''gav://'' @ raw)"
    by blast
  from th range
  have 3: "graphIds [?rTree] \<subseteq> (\<lambda>raw. ''gav://'' @ raw) ` {''r'', ''x''}"
    by (simp add: exampleTree_treeRawIds)
  from th exampleTree_graph have 4: "graphIds [?rTree] \<subseteq> range (\<lambda>raw. ''gav://'' @ raw)"
    by blast
  from 1 2 3 4 show ?thesis
    by blast
qed


section \<open>Direct and indirect dependencies\<close>








lemma getChildren_putChild:
  "getChildren (putChild dm parent child) p =
     (if p = parent then AList.update (DependencyId child) child (getChildren dm parent)
      else getChildren dm p)"
  by (simp add: getChildren_def putChild_def update_conv')

lemma requesters_simps [simp]:
  "requesters [] = []"
  "requesters ((first # rest) # requestedBy) = (GavPackageTypeIdentifier @ first) # requesters requestedBy"
  by (simp_all add: requesters_def)

lemma addModuleTree_parents_total:
  "[] \<notin> set requestedBy \<Longrightarrow>
     \<exists>parentToChildren'.
       addModuleTree_parents parentToChildren requestedBy dependency = Inr parentToChildren' \<and>
       (\<forall>p. fst ` set (getChildren parentToChildren' p)
              = fst ` set (getChildren parentToChildren p) \<union>
                (if p \<in> set (requesters requestedBy) then {DependencyId dependency} else {}))"
proof (induction requestedBy arbitrary: parentToChildren)
  case Nil
  then show ?case by simp
next
  case (Cons chain requestedBy)
  then obtain first rest where chain: "chain = first # rest"
    by (cases chain) auto
  define dm where "dm = putChild parentToChildren (GavPackageTypeIdentifier @ first) dependency"
  from Cons.prems Cons.IH [of dm] obtain dm' where dm':
      "addModuleTree_parents dm requestedBy dependency = Inr dm'"
      "\<And>p. fst ` set (getChildren dm' p)
              = fst ` set (getChildren dm p) \<union>
                (if p \<in> set (requesters requestedBy) then {DependencyId dependency} else {})"
    by auto
  have "fst ` set (getChildren dm' p)
              = fst ` set (getChildren parentToChildren p) \<union>
                (if p \<in> set (requesters (chain # requestedBy)) then {DependencyId dependency} else {})"
    for p
    unfolding dm'(2) by (auto simp: dm_def getChildren_putChild dom_update chain)
  with dm'(1) show ?case
    by (simp add: chain dm_def)
qed

lemma isDirectDependency_range_False:
  "isDirectDependency_range moduleId requestedBy = Inr False \<Longrightarrow> [] \<notin> set requestedBy"
  by (induction requestedBy) (auto split: list.splits if_splits)

text \<open>
  Inside \<^verbatim>\<open>addModuleTree\<close> the loop that records the edges runs only for a record that
  \<^verbatim>\<open>isDirectDependency\<close> returned false for, and then no chain of the record is empty.
\<close>

lemma edge_loop_reached_without_empty_chains:
  assumes "isDirectDependency moduleId requestedBy = Inr False"
  shows "[] \<notin> set requestedBy"
    and "\<exists>parentToChildren'.
           addModuleTree_parents parentToChildren requestedBy dependency = Inr parentToChildren'"
proof -
  from assms have "isDirectDependency_range moduleId requestedBy = Inr False"
    by (auto simp: isDirectDependency_def split: list.splits if_splits)
  then show "[] \<notin> set requestedBy"
    by (rule isDirectDependency_range_False)
  from addModuleTree_parents_total [OF this, of parentToChildren dependency]
  show "\<exists>parentToChildren'.
           addModuleTree_parents parentToChildren requestedBy dependency = Inr parentToChildren'"
    by blast
qed

























section \<open>Empty chains after the first\<close>




section \<open>The output-file parser\<close>

lemma Split_from_nonempty: "Split_from piece s \<noteq> []"
  by (induction s arbitrary: piece) auto

lemma joinLines_Cons:
  "pieces \<noteq> [] \<Longrightarrow> joinLines (piece # pieces) = piece @ CHR 0x0A # joinLines pieces"
  by (cases pieces) (simp_all add: joinLines_def)

lemma joinLines_Split_from: "joinLines (Split_from piece s) = piece @ s"
proof (induction s arbitrary: piece)
  case Nil
  show ?case by (simp add: joinLines_def)
next
  case (Cons c s)
  show ?case
  proof (cases "c = CHR 0x0A")
    case True
    then show ?thesis
      using Cons.IH [of "[]"] by (simp add: joinLines_Cons Split_from_nonempty)
  next
    case False
    then show ?thesis
      using Cons.IH [of "piece @ [c]"] by simp
  qed
qed

lemma Split_from_no_newline:
  "p \<in> set (Split_from piece s) \<Longrightarrow> CHR 0x0A \<in> set p \<Longrightarrow> CHR 0x0A \<in> set piece"
proof (induction s arbitrary: piece)
  case Nil
  then show ?case by simp
next
  case (Cons c s)
  show ?case
  proof (cases "c = CHR 0x0A")
    case True
    with Cons.prems Cons.IH [of "[]"] show ?thesis by auto
  next
    case False
    with Cons.prems Cons.IH [of "piece @ [c]"] show ?thesis by auto
  qed
qed

text \<open>The model of \<^verbatim>\<open>strings.Split\<close> cuts at the line feeds and nowhere else.\<close>

lemma Split_splits:
  "Split s \<noteq> []" "joinLines (Split s) = s" "p \<in> set (Split s) \<Longrightarrow> CHR 0x0A \<notin> set p"
  using Split_from_nonempty [of "[]" s] joinLines_Split_from [of "[]" s]
    Split_from_no_newline [of p "[]" s]
  by (auto simp: Split_def)

lemma leadingSpace_rune:
  "w \<in> set spaceRunes \<Longrightarrow> leadingSpace (w @ rest) = Some w"
  unfolding spaceRunes_def leadingSpace_def
  by (elim insertE emptyE | simp only: list.set)+ simp_all

lemma TrimLeft_None: "leadingSpace s = None \<Longrightarrow> TrimLeft s = s"
  by (subst TrimLeft.simps) simp

lemma TrimLeft_Some: "leadingSpace s = Some w \<Longrightarrow> TrimLeft s = TrimLeft (drop (length w) s)"
  by (subst TrimLeft.simps) simp

lemma TrimRight_None: "trailingSpace s = None \<Longrightarrow> TrimRight s = s"
  by (subst TrimRight.simps) simp

lemma leadingSpace_Nil: "leadingSpace [] = None"
  by (simp add: leadingSpace_def spaceRunes_def)

lemma trailingSpace_Nil: "trailingSpace [] = None"
  by (simp add: trailingSpace_def spaceRunes_def)

lemma TrimLeft_spaces:
  "set ws \<subseteq> set spaceRunes \<Longrightarrow> TrimLeft (concat ws) = []"
proof (induction ws)
  case Nil
  show ?case by (simp add: TrimLeft_None leadingSpace_Nil)
next
  case (Cons w ws)
  then have "leadingSpace (w @ concat ws) = Some w"
    by (intro leadingSpace_rune) simp
  from TrimLeft_Some [OF this] Cons show ?case
    by simp
qed

lemma TrimSpace_spaces:
  "set ws \<subseteq> set spaceRunes \<Longrightarrow> TrimSpace (concat ws) = []"
  by (simp add: TrimSpace_def TrimLeft_spaces TrimRight_None trailingSpace_Nil)

lemma TrimSpace_Nil: "TrimSpace [] = []"
  using TrimSpace_spaces [of "[]"] by simp

lemma leadingSpace_prefix:
  assumes "leadingSpace (s @ after) = None"
  shows "leadingSpace s = None"
proof -
  have "take (length w) s \<noteq> w" if w: "w \<in> set spaceRunes" for w
  proof
    assume eq: "take (length w) s = w"
    have "length (take (length w) s) \<le> length s"
      by simp
    with eq have "length w \<le> length s"
      by simp
    with eq have "take (length w) (s @ after) = w"
      by simp
    with assms w show False
      by (auto simp: leadingSpace_def find_None_iff)
  qed
  then show ?thesis
    by (auto simp: leadingSpace_def find_None_iff)
qed

lemma TrimLeft_trimmed:
  "leadingSpace (TrimLeft s) = None" "\<exists>before. s = before @ TrimLeft s"
proof (induction s rule: TrimLeft.induct)
  case (1 s)
  {
    case 1
    show ?case
    proof (cases "leadingSpace s")
      case None
      then show ?thesis by (simp add: TrimLeft_None)
    next
      case (Some w)
      with "1.IH"(1) show ?thesis by (simp add: TrimLeft_Some)
    qed
  next
    case 2
    show ?case
    proof (cases "leadingSpace s")
      case None
      then show ?thesis by (simp add: TrimLeft_None)
    next
      case (Some w)
      with "1.IH"(2) obtain before where "drop (length w) s = before @ TrimLeft s"
        by (auto simp: TrimLeft_Some)
      then have "s = (take (length w) s @ before) @ TrimLeft s"
        by (metis append.assoc append_take_drop_id)
      then show ?thesis by blast
    qed
  }
qed

lemma TrimRight_Some:
  "trailingSpace s = Some w \<Longrightarrow> TrimRight s = TrimRight (take (length s - length w) s)"
  by (subst TrimRight.simps) simp

lemma TrimRight_trimmed:
  "trailingSpace (TrimRight s) = None" "\<exists>after. s = TrimRight s @ after"
proof (induction s rule: TrimRight.induct)
  case (1 s)
  {
    case 1
    show ?case
    proof (cases "trailingSpace s")
      case None
      then show ?thesis by (simp add: TrimRight_None)
    next
      case (Some w)
      with "1.IH"(1) show ?thesis by (simp add: TrimRight_Some)
    qed
  next
    case 2
    show ?case
    proof (cases "trailingSpace s")
      case None
      then show ?thesis by (simp add: TrimRight_None)
    next
      case (Some w)
      with "1.IH"(2) obtain after where "take (length s - length w) s = TrimRight s @ after"
        by (auto simp: TrimRight_Some)
      then have "s = TrimRight s @ (after @ drop (length s - length w) s)"
        by (metis append.assoc append_take_drop_id)
      then show ?thesis by blast
    qed
  }
qed

text \<open>
  The model of \<^verbatim>\<open>strings.TrimSpace\<close> returns a piece of its argument that neither starts
  nor ends with a white space rune.
\<close>

lemma TrimSpace_trimmed:
  "leadingSpace (TrimSpace s) = None" "trailingSpace (TrimSpace s) = None"
  "\<exists>before after. s = before @ TrimSpace s @ after"
proof -
  obtain before where b: "s = before @ TrimLeft s"
    using TrimLeft_trimmed(2) by blast
  obtain after where a: "TrimLeft s = TrimRight (TrimLeft s) @ after"
    using TrimRight_trimmed(2) by blast
  from a TrimLeft_trimmed(1) [of s] show "leadingSpace (TrimSpace s) = None"
    unfolding TrimSpace_def by (metis leadingSpace_prefix)
  show "trailingSpace (TrimSpace s) = None"
    by (simp add: TrimSpace_def TrimRight_trimmed(1))
  from a b show "\<exists>before after. s = before @ TrimSpace s @ after"
    unfolding TrimSpace_def by metis
qed

lemma parseDepTreeFile_Nil: "parseDepTreeFile fs Unmarshal [] = Inl (ReadError [])"
  by (simp add: parseDepTreeFile_def TrimSpace_Nil ReadFile_def)

lemma parseDepTreeFiles_range_ok:
  "\<forall>path \<in> set paths. \<exists>results. parseDepTreeFile fs Unmarshal path = Inr results \<Longrightarrow>
     parseDepTreeFiles_range fs Unmarshal paths modules
       = Inr (modules @ map (\<lambda>path. projr (parseDepTreeFile fs Unmarshal path)) paths)"
  by (induction paths arbitrary: modules) auto

lemma parseDepTreeFiles_range_fails:
  "\<forall>path \<in> set before. \<exists>results. parseDepTreeFile fs Unmarshal path = Inr results \<Longrightarrow>
     parseDepTreeFile fs Unmarshal path = Inl e \<Longrightarrow>
     parseDepTreeFiles_range fs Unmarshal (before @ path # after) modules = Inl e"
  by (induction before arbitrary: modules) auto

lemma parseDepTreeFiles_range_Inr:
  "parseDepTreeFiles_range fs Unmarshal paths modules = Inr modules' \<Longrightarrow>
     (\<forall>path \<in> set paths. \<exists>results. parseDepTreeFile fs Unmarshal path = Inr results) \<and>
     length modules' = length modules + length paths"
proof (induction paths arbitrary: modules)
  case Nil
  then show ?case by simp
next
  case (Cons path paths)
  then obtain results where r: "parseDepTreeFile fs Unmarshal path = Inr results"
      "parseDepTreeFiles_range fs Unmarshal paths (modules @ [results]) = Inr modules'"
    by (auto split: sum.splits)
  from Cons.IH [OF r(2)] r(1) show ?case
    by simp
qed

lemmas parser_eval =
  parseDepTreeFile_def ReadFile_def Split_def TrimSpace_def TrimLeft.simps TrimRight.simps
  leadingSpace_def trailingSpace_def spaceRunes_def exampleFiles_def exampleUnmarshal_def

text \<open>
  Claim C6. The parser trims its input, splits it at the line feeds, and reads and
  decodes the files in the order of the paths, trimming each path before it is read: a
  path that cannot be read gives a read error and a file that is not valid JSON a
  decoding error. If every file is read and decoded, the call returns the decoded
  modules in the order of the paths. If some file fails, the call returns the error of
  the first file that fails and no module list at all, whatever was decoded before it.
  It returns a module list only when every file was read and decoded, one module per
  path.
\<close>

theorem parseDepTreeFiles_all_or_nothing:
  "parseDepTreeFiles fs Unmarshal jsonFilePaths
     = parseDepTreeFiles_range fs Unmarshal (Split (TrimSpace jsonFilePaths)) [] \<and>
   parseDepTreeFile fs Unmarshal path
     = (case ReadFile fs (TrimSpace path) of
          Inl e \<Rightarrow> Inl e
        | Inr depTreeJson \<Rightarrow>
            (case Unmarshal depTreeJson of
               Invalid \<Rightarrow> Inl DecodeError | Null \<Rightarrow> Inr None | Decoded results \<Rightarrow> Inr (Some results))) \<and>
   (fs (TrimSpace path) = None \<longrightarrow>
      parseDepTreeFile fs Unmarshal path = Inl (ReadError (TrimSpace path))) \<and>
   (TrimSpace path \<noteq> [] \<and> fs (TrimSpace path) = Some depTreeJson \<and> Unmarshal depTreeJson = Invalid \<longrightarrow>
      parseDepTreeFile fs Unmarshal path = Inl DecodeError) \<and>
   ((\<forall>path \<in> set (Split (TrimSpace jsonFilePaths)).
        \<exists>results. parseDepTreeFile fs Unmarshal path = Inr results) \<longrightarrow>
      parseDepTreeFiles fs Unmarshal jsonFilePaths
        = Inr (map (\<lambda>path. projr (parseDepTreeFile fs Unmarshal path))
                 (Split (TrimSpace jsonFilePaths)))) \<and>
   (Split (TrimSpace jsonFilePaths) = before @ failing # after \<and>
    (\<forall>path \<in> set before. \<exists>results. parseDepTreeFile fs Unmarshal path = Inr results) \<and>
    parseDepTreeFile fs Unmarshal failing = Inl e \<longrightarrow>
      parseDepTreeFiles fs Unmarshal jsonFilePaths = Inl e) \<and>
   (parseDepTreeFiles fs Unmarshal jsonFilePaths = Inr modules \<longrightarrow>
      (\<forall>path \<in> set (Split (TrimSpace jsonFilePaths)).
         \<exists>results. parseDepTreeFile fs Unmarshal path = Inr results) \<and>
      length modules = length (Split (TrimSpace jsonFilePaths)))"
proof (intro conjI impI)
  show "parseDepTreeFiles fs Unmarshal jsonFilePaths
     = parseDepTreeFiles_range fs Unmarshal (Split (TrimSpace jsonFilePaths)) []"
    by (rule parseDepTreeFiles_def)
  show "parseDepTreeFile fs Unmarshal path
     = (case ReadFile fs (TrimSpace path) of
          Inl e \<Rightarrow> Inl e
        | Inr depTreeJson \<Rightarrow>
            (case Unmarshal depTreeJson of
               Invalid \<Rightarrow> Inl DecodeError | Null \<Rightarrow> Inr None | Decoded results \<Rightarrow> Inr (Some results)))"
    by (rule parseDepTreeFile_def)
next
  assume "fs (TrimSpace path) = None"
  then show "parseDepTreeFile fs Unmarshal path = Inl (ReadError (TrimSpace path))"
    by (simp add: parseDepTreeFile_def ReadFile_def)
next
  assume "TrimSpace path \<noteq> [] \<and> fs (TrimSpace path) = Some depTreeJson \<and>
          Unmarshal depTreeJson = Invalid"
  then show "parseDepTreeFile fs Unmarshal path = Inl DecodeError"
    by (simp add: parseDepTreeFile_def ReadFile_def)
next
  assume "\<forall>path \<in> set (Split (TrimSpace jsonFilePaths)).
        \<exists>results. parseDepTreeFile fs Unmarshal path = Inr results"
  from parseDepTreeFiles_range_ok [OF this, of "[]"]
  show "parseDepTreeFiles fs Unmarshal jsonFilePaths
        = Inr (map (\<lambda>path. projr (parseDepTreeFile fs Unmarshal path))
                 (Split (TrimSpace jsonFilePaths)))"
    by (simp add: parseDepTreeFiles_def)
next
  assume a: "Split (TrimSpace jsonFilePaths) = before @ failing # after \<and>
    (\<forall>path \<in> set before. \<exists>results. parseDepTreeFile fs Unmarshal path = Inr results) \<and>
    parseDepTreeFile fs Unmarshal failing = Inl e"
  then have "parseDepTreeFiles_range fs Unmarshal (before @ failing # after) [] = Inl e"
    by (intro parseDepTreeFiles_range_fails) simp_all
  with a show "parseDepTreeFiles fs Unmarshal jsonFilePaths = Inl e"
    by (simp add: parseDepTreeFiles_def)
next
  assume "parseDepTreeFiles fs Unmarshal jsonFilePaths = Inr modules"
  then have "parseDepTreeFiles_range fs Unmarshal (Split (TrimSpace jsonFilePaths)) [] = Inr modules"
    by (simp add: parseDepTreeFiles_def)
  from parseDepTreeFiles_range_Inr [OF this]
  show "\<forall>path \<in> set (Split (TrimSpace jsonFilePaths)).
         \<exists>results. parseDepTreeFile fs Unmarshal path = Inr results"
    and "length modules = length (Split (TrimSpace jsonFilePaths))"
    by simp_all
qed

text \<open>
  With the files a.json, b.json and c.json, of which c.json is not valid JSON: two
  readable paths with blanks around them give the two modules in order, a missing file
  between two readable ones gives its read error, and c.json after a.json gives the
  decoding error.
\<close>

theorem parseDepTreeFiles_all_or_nothing_witness:
  "parseDepTreeFiles exampleFiles exampleUnmarshal '' a.json\<newline> b.json\<newline>''
     = Inr [Some exampleTree, Some cyclicTree] \<and>
   parseDepTreeFiles exampleFiles exampleUnmarshal ''a.json\<newline>missing.json\<newline>b.json''
     = Inl (ReadError ''missing.json'') \<and>
   parseDepTreeFiles exampleFiles exampleUnmarshal ''a.json\<newline>c.json'' = Inl DecodeError"
proof -
  note ok = parseDepTreeFiles_all_or_nothing
      [THEN conjunct2, THEN conjunct2, THEN conjunct2, THEN conjunct2, THEN conjunct1, THEN mp]
  note fails = parseDepTreeFiles_all_or_nothing
      [THEN conjunct2, THEN conjunct2, THEN conjunct2, THEN conjunct2, THEN conjunct2,
       THEN conjunct1, THEN mp]
  have paths: "Split (TrimSpace '' a.json\<newline> b.json\<newline>'') = [''a.json'', '' b.json'']"
    by (simp add: parser_eval)
  have a: "parseDepTreeFile exampleFiles exampleUnmarshal ''a.json'' = Inr (Some exampleTree)"
    and b: "parseDepTreeFile exampleFiles exampleUnmarshal '' b.json'' = Inr (Some cyclicTree)"
    and b': "parseDepTreeFile exampleFiles exampleUnmarshal ''b.json'' = Inr (Some cyclicTree)"
    and c: "parseDepTreeFile exampleFiles exampleUnmarshal ''c.json'' = Inl DecodeError"
    and m: "parseDepTreeFile exampleFiles exampleUnmarshal ''missing.json''
              = Inl (ReadError ''missing.json'')"
    by (simp_all add: parser_eval)
  have "\<forall>path \<in> set (Split (TrimSpace '' a.json\<newline> b.json\<newline>'')).
          \<exists>results. parseDepTreeFile exampleFiles exampleUnmarshal path = Inr results"
    unfolding paths using a b by simp
  from ok [OF this]
  have 1: "parseDepTreeFiles exampleFiles exampleUnmarshal '' a.json\<newline> b.json\<newline>''
             = Inr [Some exampleTree, Some cyclicTree]"
    unfolding paths using a b by simp
  have "Split (TrimSpace ''a.json\<newline>missing.json\<newline>b.json'')
          = [''a.json''] @ ''missing.json'' # [''b.json''] \<and>
        (\<forall>path \<in> set [''a.json''].
           \<exists>results. parseDepTreeFile exampleFiles exampleUnmarshal path = Inr results) \<and>
        parseDepTreeFile exampleFiles exampleUnmarshal ''missing.json''
          = Inl (ReadError ''missing.json'')"
    using a m by (simp add: parser_eval)
  note 2 = fails [OF this]
  have "Split (TrimSpace ''a.json\<newline>c.json'') = [''a.json''] @ ''c.json'' # [] \<and>
        (\<forall>path \<in> set [''a.json''].
           \<exists>results. parseDepTreeFile exampleFiles exampleUnmarshal path = Inr results) \<and>
        parseDepTreeFile exampleFiles exampleUnmarshal ''c.json'' = Inl DecodeError"
    using a c by (simp add: parser_eval)
  note 3 = fails [OF this]
  show ?thesis
    by (intro conjI 1 2 3)
qed

text \<open>
  Claim C10. For the empty input, and for an input that is only white space, the parser
  does not return an empty module list: the trimmed input is empty, splitting it gives
  the single path that is the empty string, and reading that path fails, so the call
  returns a read error. No input at all gives the empty module list without an error.
\<close>

theorem parseDepTreeFiles_never_empty:
  "(set ws \<subseteq> set spaceRunes \<longrightarrow>
      TrimSpace (concat ws) = [] \<and>
      Split (TrimSpace (concat ws)) = [[]] \<and>
      parseDepTreeFiles fs Unmarshal (concat ws) = Inl (ReadError [])) \<and>
   parseDepTreeFiles fs Unmarshal [] = Inl (ReadError []) \<and>
   parseDepTreeFiles fs Unmarshal jsonFilePaths \<noteq> Inr []"
proof (intro conjI impI)
  assume ws: "set ws \<subseteq> set spaceRunes"
  then show trim: "TrimSpace (concat ws) = []"
    by (rule TrimSpace_spaces)
  then show "Split (TrimSpace (concat ws)) = [[]]"
    by (simp add: Split_def)
  with trim show "parseDepTreeFiles fs Unmarshal (concat ws) = Inl (ReadError [])"
    by (simp add: parseDepTreeFiles_def Split_def parseDepTreeFile_Nil)
next
  show "parseDepTreeFiles fs Unmarshal [] = Inl (ReadError [])"
    by (simp add: parseDepTreeFiles_def Split_def TrimSpace_Nil parseDepTreeFile_Nil)
next
  show "parseDepTreeFiles fs Unmarshal jsonFilePaths \<noteq> Inr []"
  proof
    assume "parseDepTreeFiles fs Unmarshal jsonFilePaths = Inr []"
    then have "parseDepTreeFiles_range fs Unmarshal (Split (TrimSpace jsonFilePaths)) [] = Inr []"
      by (simp add: parseDepTreeFiles_def)
    from parseDepTreeFiles_range_Inr [OF this] Split_splits(1) [of "TrimSpace jsonFilePaths"]
    show False
      by simp
  qed
qed


text \<open>The input made of a blank, a line feed and a no-break space gives the read error.\<close>

theorem parseDepTreeFiles_never_empty_witness:
  "TrimSpace [CHR 0x20, CHR 0x0A, CHR 0xC2, CHR 0xA0] = [] \<and>
   Split (TrimSpace [CHR 0x20, CHR 0x0A, CHR 0xC2, CHR 0xA0]) = [[]] \<and>
   parseDepTreeFiles exampleFiles exampleUnmarshal [CHR 0x20, CHR 0x0A, CHR 0xC2, CHR 0xA0]
     = Inl (ReadError [])"
proof -
  have "set [[CHR 0x20], [CHR 0x0A], [CHR 0xC2, CHR 0xA0]] \<subseteq> set spaceRunes"
    by (simp add: spaceRunes_def)
  note spaces = parseDepTreeFiles_never_empty [THEN conjunct1, THEN mp, OF this,
          of exampleFiles exampleUnmarshal]
  have "concat [[CHR 0x20], [CHR 0x0A], [CHR 0xC2, CHR 0xA0]]
          = [CHR 0x20, CHR 0x0A, CHR 0xC2, CHR 0xA0]"
    by simp
  with spaces show ?thesis
    by (simp add: Split_def)
qed


end
